theory Spec2Isabelle
  imports Main "HOL-Library.Word" "HOL-Library.Sublist"
begin

section \<open>Decoded JSON values\<close>

text \<open>
  The value \<^verbatim>\<open>json.load\<close> hands to \<^verbatim>\<open>normalize_data\<close>: \<^verbatim>\<open>None\<close>, a \<^verbatim>\<open>bool\<close>, an
  unbounded \<^verbatim>\<open>int\<close>, a \<^verbatim>\<open>float\<close> (its 64 bits), a \<^verbatim>\<open>str\<close> (its UTF-8 bytes), a
  \<^verbatim>\<open>list\<close>, or a \<^verbatim>\<open>dict\<close> with \<^verbatim>\<open>str\<close> keys. A \<^verbatim>\<open>dict\<close> keeps the order in which its keys
  were inserted, so it is an association list; a real \<^verbatim>\<open>dict\<close> never holds a key twice
  (\<open>wf_dict\<close>), and a lookup in the list reads the first binding.
\<close>

datatype json =
    JNull
  | JBool bool
  | JInt int
  | JFloat "64 word"
  | JStr string
  | JList "json list"
  | JDict "(string \<times> json) list"

type_synonym pydict = "(string \<times> json) list"

definition wf_dict :: "pydict \<Rightarrow> bool" where
  "wf_dict d = distinct (map fst d)"

text \<open>\<^verbatim>\<open>bool(x)\<close>: a float is false when it is \<open>0.0\<close> or \<open>-0.0\<close>, that is when all its
  bits but the sign are clear.\<close>

fun truthy :: "json \<Rightarrow> bool" where
  "truthy JNull = False"
| "truthy (JBool b) = b"
| "truthy (JInt i) = (i \<noteq> 0)"
| "truthy (JFloat w) = (push_bit 1 w \<noteq> 0)"
| "truthy (JStr s) = (s \<noteq> [])"
| "truthy (JList xs) = (xs \<noteq> [])"
| "truthy (JDict d) = (d \<noteq> [])"

text \<open>\<^verbatim>\<open>d.get(k, default)\<close>.\<close>

definition get_or :: "pydict \<Rightarrow> string \<Rightarrow> json \<Rightarrow> json" where
  "get_or d k dflt = (case map_of d k of Some v \<Rightarrow> v | None \<Rightarrow> dflt)"

text \<open>\<^verbatim>\<open>d[k] = v\<close>: an existing key keeps its place, a new one goes to the end.\<close>

fun dict_set :: "pydict \<Rightarrow> string \<Rightarrow> json \<Rightarrow> pydict" where
  "dict_set [] k v = [(k, v)]"
| "dict_set ((k', v') # d) k v =
     (if k' = k then (k', v) # d else (k', v') # dict_set d k v)"

text \<open>\<^verbatim>\<open>d.update(e)\<close>: the pairs of \<open>e\<close> are stored one by one, in the order of \<open>e\<close>.\<close>

definition dict_update :: "pydict \<Rightarrow> pydict \<Rightarrow> pydict" where
  "dict_update d e = foldl (\<lambda>acc (k, v). dict_set acc k v) d e"

text \<open>\<^verbatim>\<open>d.setdefault(k, v)\<close>, for the dictionary it leaves behind.\<close>

definition dict_setdefault :: "pydict \<Rightarrow> string \<Rightarrow> json \<Rightarrow> pydict" where
  "dict_setdefault d k v = (if map_of d k = None then d @ [(k, v)] else d)"

subsection \<open>Dictionary keys that are not strings\<close>

text \<open>
  The dictionary \<^verbatim>\<open>sections\<close> of \<^verbatim>\<open>normalize_sentences\<close> is keyed by the section title, which
  is whatever value the entry holds. Two keys are the same key when they are equal in
  Python: strings by their characters; \<^verbatim>\<open>bool\<close>, \<^verbatim>\<open>int\<close> and \<^verbatim>\<open>float\<close> by their numeric
  value (\<^verbatim>\<open>True == 1 == 1.0\<close>); a \<^verbatim>\<open>list\<close> or a \<^verbatim>\<open>dict\<close> is not hashable. A finite number
  is held scaled by \<open>2 ^ 1074\<close>, which makes every finite double an integer. The decoder
  returns one and the same object for every \<^verbatim>\<open>NaN\<close>, which a dictionary finds by identity.
\<close>

datatype pykey = KNone | KStr string | KNum int | KInf bool | KNaN

definition float_key :: "64 word \<Rightarrow> pykey" where
  "float_key w =
     (let neg = bit w 63;
          e = unat (take_bit 11 (drop_bit 52 w));
          m = uint (take_bit 52 w);
          sgn = (if neg then - 1 else 1)
      in if e = 2047 then (if m = 0 then KInf neg else KNaN)
         else if e = 0 then KNum (sgn * m)
         else KNum (sgn * (2 ^ 52 + m) * 2 ^ (e - 1)))"

fun key_of :: "json \<Rightarrow> pykey option" where
  "key_of JNull = Some KNone"
| "key_of (JBool b) = Some (KNum (if b then 2 ^ 1074 else 0))"
| "key_of (JInt i) = Some (KNum (i * 2 ^ 1074))"
| "key_of (JFloat w) = Some (float_key w)"
| "key_of (JStr s) = Some (KStr s)"
| "key_of (JList xs) = None"
| "key_of (JDict d) = None"

subsection \<open>Iteration\<close>

text \<open>A \<^verbatim>\<open>str\<close> is iterated character by character; in UTF-8 a character is a leading
  byte and the continuation bytes (\<open>0x80\<close> to \<open>0xBF\<close>) after it.\<close>

definition continuation :: "char \<Rightarrow> bool" where
  "continuation c = (128 \<le> (of_char c :: nat) \<and> (of_char c :: nat) < 192)"

function code_points :: "string \<Rightarrow> string list" where
  "code_points [] = []"
| "code_points (c # cs) =
     (c # takeWhile continuation cs) # code_points (dropWhile continuation cs)"
  by pat_completeness auto
termination
  by (relation "measure length") (auto simp: length_dropWhile_le less_Suc_eq_le)

section \<open>Exceptions\<close>

text \<open>
  A \<^verbatim>\<open>ValueError\<close> carries the fields of its f-string: literal text, the entry index
  (\<^verbatim>\<open>{index}\<close>) and the \<^verbatim>\<open>repr\<close> of a value (\<^verbatim>\<open>{item!r}\<close>). The other exceptions are the
  interpreter's own: iterating a value that is not iterable, using an unhashable value
  as a dictionary key, calling \<^verbatim>\<open>.get\<close> on a value that has none.
\<close>

datatype piece = Lit string | Idx nat | ReprOf json

datatype error =
    ValueError "piece list"
  | TypeError_not_iterable json
  | TypeError_unhashable json
  | AttributeError json

definition digit_char :: "nat \<Rightarrow> char" where
  "digit_char d = ''0123456789'' ! d"

fun str_nat :: "nat \<Rightarrow> string" where
  "str_nat n =
     (if n < 10 then [digit_char n] else str_nat (n div 10) @ [digit_char (n mod 10)])"

declare str_nat.simps [simp del]

text \<open>The text of a message; \<^verbatim>\<open>repr\<close> is the interpreter's and is a parameter.\<close>

fun render_piece :: "(json \<Rightarrow> string) \<Rightarrow> piece \<Rightarrow> string" where
  "render_piece repr (Lit s) = s"
| "render_piece repr (Idx n) = str_nat n"
| "render_piece repr (ReprOf v) = repr v"

definition message :: "(json \<Rightarrow> string) \<Rightarrow> piece list \<Rightarrow> string" where
  "message repr ps = concat (map (render_piece repr) ps)"

section \<open>\<^verbatim>\<open>normalize_sentences\<close>: a flat list of sentences\<close>

text \<open>Lines 39 to 43: the \<^verbatim>\<open>translations\<close> field, read with \<open>map_of item ''translations''\<close>
  (\<open>None\<close> when the key is absent).\<close>

fun merge_translations :: "nat \<Rightarrow> json option \<Rightarrow> pydict \<Rightarrow> error + pydict" where
  "merge_translations index None translations = Inr translations"
| "merge_translations index (Some (JDict t)) translations = Inr (dict_update translations t)"
| "merge_translations index (Some JNull) translations = Inr translations"
| "merge_translations index (Some v) translations =
     Inl (ValueError [Lit '''translations' on entry '', Idx index,
                      Lit '' must be an object if provided.''])"

text \<open>Lines 45 to 52: the \<^verbatim>\<open>translation\<close> field.\<close>

fun merge_translation ::
  "nat \<Rightarrow> string \<Rightarrow> json option \<Rightarrow> pydict \<Rightarrow> error + pydict" where
  "merge_translation index default_lang None translations = Inr translations"
| "merge_translation index default_lang (Some (JStr s)) translations =
     Inr (dict_setdefault translations default_lang (JStr s))"
| "merge_translation index default_lang (Some (JDict m)) translations =
     Inr (dict_update translations m)"
| "merge_translation index default_lang (Some JNull) translations = Inr translations"
| "merge_translation index default_lang (Some v) translations =
     Inl (ValueError [Lit '''translation' on entry '', Idx index,
                      Lit '' must be a string or object.''])"

text \<open>Lines 37 to 52 together: the translations of one entry.\<close>

definition entry_translations :: "nat \<Rightarrow> string \<Rightarrow> pydict \<Rightarrow> error + pydict" where
  "entry_translations index default_lang item =
     (case merge_translations index (map_of item ''translations'') [] of
        Inl e \<Rightarrow> Inl e
      | Inr translations \<Rightarrow>
          merge_translation index default_lang (map_of item ''translation'') translations)"

text \<open>Line 54: \<^verbatim>\<open>item.get("section") or default_section\<close>.\<close>

definition section_title_of :: "string \<Rightarrow> pydict \<Rightarrow> json" where
  "section_title_of default_section item =
     (let v = get_or item ''section'' JNull
      in if truthy v then v else JStr default_section)"

text \<open>
  Lines 30 to 60, the body of the loop up to the section title and the sentence it
  appends. \<^verbatim>\<open>sections.setdefault(section_title, [])\<close> hashes the title before the
  sentence is built, and nothing else can fail after it.
\<close>

fun flat_entry :: "nat \<Rightarrow> string \<Rightarrow> string \<Rightarrow> json \<Rightarrow> error + (json \<times> json)" where
  "flat_entry index default_section default_lang (JDict item) =
     (case map_of item ''original'' of
        None \<Rightarrow>
          Inl (ValueError [Lit ''Entry '', Idx index, Lit '' is missing 'original': '',
                           ReprOf (JDict item)])
      | Some original \<Rightarrow>
          (case entry_translations index default_lang item of
             Inl e \<Rightarrow> Inl e
           | Inr translations \<Rightarrow>
               (let section_title = section_title_of default_section item
                in case key_of section_title of
                     None \<Rightarrow> Inl (TypeError_unhashable section_title)
                   | Some k \<Rightarrow>
                       Inr (section_title,
                            JDict [(''original'', original),
                                   (''translations'', JDict translations),
                                   (''root'',
                                    JBool (truthy (get_or item ''root'' (JBool False))))]))))"
| "flat_entry index default_section default_lang item =
     Inl (ValueError [Lit ''Entry '', Idx index, Lit '' is not an object: '', ReprOf item])"

text \<open>\<^verbatim>\<open>sections.setdefault(section_title, []).append(sentence)\<close>.\<close>

fun sections_append ::
  "(json \<times> json list) list \<Rightarrow> json \<Rightarrow> json \<Rightarrow> (json \<times> json list) list" where
  "sections_append [] title sentence = [(title, [sentence])]"
| "sections_append ((t, ss) # rest) title sentence =
     (if key_of t = key_of title then (t, ss @ [sentence]) # rest
      else (t, ss) # sections_append rest title sentence)"

text \<open>The loop of line 29, with \<^verbatim>\<open>index\<close> and \<^verbatim>\<open>sections\<close> as its state.\<close>

fun flat_loop ::
  "nat \<Rightarrow> string \<Rightarrow> string \<Rightarrow> json list \<Rightarrow> (json \<times> json list) list
     \<Rightarrow> error + (json \<times> json list) list" where
  "flat_loop index default_section default_lang [] sections = Inr sections"
| "flat_loop index default_section default_lang (item # items) sections =
     (case flat_entry index default_section default_lang item of
        Inl e \<Rightarrow> Inl e
      | Inr (section_title, sentence) \<Rightarrow>
          flat_loop (Suc index) default_section default_lang items
            (sections_append sections section_title sentence))"

definition section_dict :: "json \<times> json list \<Rightarrow> json" where
  "section_dict p = JDict [(''sectionTitle'', fst p), (''sentences'', JList (snd p))]"

definition normalize_sentences :: "json list \<Rightarrow> string \<Rightarrow> string \<Rightarrow> error + json list" where
  "normalize_sentences items default_section default_lang =
     (case flat_loop 1 default_section default_lang items [] of
        Inl e \<Rightarrow> Inl e
      | Inr sections \<Rightarrow> Inr (map section_dict sections))"

section \<open>\<^verbatim>\<open>normalize_data\<close>\<close>

text \<open>The test of line 73 on one element.\<close>

fun is_section_shape :: "json \<Rightarrow> bool" where
  "is_section_shape (JDict item) =
     (map_of item ''sectionTitle'' \<noteq> None \<and> map_of item ''sentences'' \<noteq> None)"
| "is_section_shape v = False"

text \<open>What \<^verbatim>\<open>for sentence in x\<close> runs over: the elements of a list, the characters of a
  string, the keys of a dictionary; anything else is not iterable.\<close>

fun iterate :: "json \<Rightarrow> error + json list" where
  "iterate (JList xs) = Inr xs"
| "iterate (JStr s) = Inr (map JStr (code_points s))"
| "iterate (JDict d) = Inr (map (\<lambda>p. JStr (fst p)) d)"
| "iterate v = Inl (TypeError_not_iterable v)"

text \<open>Lines 81 to 87.\<close>

definition sectioned_sentence :: "pydict \<Rightarrow> json" where
  "sectioned_sentence sentence =
     JDict [(''original'', get_or sentence ''original'' (JStr '''')),
            (''translations'', get_or sentence ''translations'' (JDict [])),
            (''root'', JBool (truthy (get_or sentence ''root'' (JBool False))))]"

text \<open>The loop of line 78, with the list \<^verbatim>\<open>sentences\<close> as its state.\<close>

fun sentences_loop :: "json list \<Rightarrow> json list \<Rightarrow> error + json list" where
  "sentences_loop [] sentences = Inr sentences"
| "sentences_loop (JDict sentence # rest) sentences =
     sentences_loop rest (sentences @ [sectioned_sentence sentence])"
| "sentences_loop (v # rest) sentences =
     Inl (ValueError [Lit ''Sentence must be an object: '', ReprOf v])"

text \<open>The loop of line 75, with \<^verbatim>\<open>normalized_sections\<close> as its state. It runs only after
  the test of line 73, so \<^verbatim>\<open>section.get\<close> is there; on anything but a dictionary the
  attribute would be missing.\<close>

fun sections_loop :: "string \<Rightarrow> json list \<Rightarrow> json list \<Rightarrow> error + json list" where
  "sections_loop default_section [] normalized_sections = Inr normalized_sections"
| "sections_loop default_section (JDict section # rest) normalized_sections =
     (let section_title = get_or section ''sectionTitle'' (JStr default_section)
      in case iterate (get_or section ''sentences'' (JList [])) of
           Inl e \<Rightarrow> Inl e
         | Inr its \<Rightarrow>
             (case sentences_loop its [] of
                Inl e \<Rightarrow> Inl e
              | Inr sentences \<Rightarrow>
                  sections_loop default_section rest
                    (normalized_sections @ [section_dict (section_title, sentences)])))"
| "sections_loop default_section (v # rest) normalized_sections = Inl (AttributeError v)"

definition unsupported_shape :: error where
  "unsupported_shape =
     ValueError [Lit ''Unsupported JSON shape. Expected a list of sentences or sections.'']"

function (sequential) normalize_data :: "json \<Rightarrow> string \<Rightarrow> string \<Rightarrow> error + json list" where
  "normalize_data (JList raw_data) default_section default_lang =
     (if list_all is_section_shape raw_data
      then sections_loop default_section raw_data []
      else normalize_sentences raw_data default_section default_lang)"
| "normalize_data (JDict raw_data) default_section default_lang =
     (case map_of raw_data ''sections'' of
        Some v \<Rightarrow> normalize_data v default_section default_lang
      | None \<Rightarrow> Inl unsupported_shape)"
| "normalize_data raw_data default_section default_lang = Inl unsupported_shape"
  by pat_completeness auto
termination
proof (relation "measure (\<lambda>(raw_data, ds, dl). size raw_data)")
  show "wf (measure (\<lambda>(raw_data, ds, dl). size raw_data))" by simp
next
  fix raw_data :: pydict and default_section default_lang :: string and v
  assume "map_of raw_data ''sections'' = Some v"
  then have "size v < Suc (size_list (size_prod (\<lambda>x. 0) size) raw_data)"
    by (induction raw_data) (auto split: if_splits)
  then show "((v, default_section, default_lang), JDict raw_data, default_section, default_lang)
      \<in> measure (\<lambda>(raw_data, ds, dl). size raw_data)" by simp
qed

section \<open>Notions for the statements\<close>

subsection \<open>Reading a Document\<close>

text \<open>
  The value of a key of a mapping, the \<^verbatim>\<open>sentences\<close> of an output section, and the
  \<^verbatim>\<open>section\<close> field of a flat entry.
\<close>

fun field :: "string \<Rightarrow> json \<Rightarrow> json option" where
  "field k (JDict d) = map_of d k"
| "field k v = None"

fun sentences_of :: "json \<Rightarrow> json list" where
  "sentences_of (JDict d) = (case map_of d ''sentences'' of Some (JList ss) \<Rightarrow> ss | _ \<Rightarrow> [])"
| "sentences_of v = []"

fun section_field :: "json \<Rightarrow> json option" where
  "section_field (JDict d) = map_of d ''section''"
| "section_field v = None"

subsection \<open>Grouping\<close>

text \<open>
  What the specification asks of the flat list, in its words: the titles in the order in
  which each is first met (\<open>first_by\<close>, where two titles are the same when their \<open>key
\<close>
  is), the sentences of the entries with a given title, in the order of the input
  (\<open>members\<close>), and the sections these make (\<open>grouped\<close>).\<close>

function first_by :: "('a \<Rightarrow> 'k) \<Rightarrow> 'a list \<Rightarrow> 'a list" where
  "first_by key [] = []"
| "first_by key (x # xs) = x # first_by key (filter (\<lambda>y. key y \<noteq> key x) xs)"
  by pat_completeness auto
termination
  by (relation "measure (\<lambda>(key, xs). length xs)") (auto simp: less_Suc_eq_le)

definition members :: "('t \<Rightarrow> 'k) \<Rightarrow> 't \<Rightarrow> ('t \<times> 's) list \<Rightarrow> 's list" where
  "members key t ps = map snd (filter (\<lambda>p. key (fst p) = key t) ps)"

definition grouped :: "('t \<Rightarrow> 'k) \<Rightarrow> ('t \<times> 's) list \<Rightarrow> ('t \<times> 's list) list" where
  "grouped key ps = map (\<lambda>t. (t, members key t ps)) (first_by key (map fst ps))"

text \<open>
  The loop of line 29 run on the pairs of title and sentence that the entries yield, and
  the keys that \<^verbatim>\<open>sections\<close> holds.
\<close>

definition append_all ::
  "(json \<times> json list) list \<Rightarrow> (json \<times> json) list \<Rightarrow> (json \<times> json list) list" where
  "append_all secs ps = foldl (\<lambda>acc p. sections_append acc (fst p) (snd p)) secs ps"

definition keys_of :: "(json \<times> 's) list \<Rightarrow> pykey option set" where
  "keys_of secs = set (map (\<lambda>p. key_of (fst p)) secs)"

subsection \<open>The sectioned shape\<close>

text \<open>
  An input section and the output section made of it: the section is a mapping, its
  \<^verbatim>\<open>sentences\<close> iterate to mappings, and the output has its title and one sentence for
  each.
\<close>

definition sectioned_rel :: "string \<Rightarrow> json \<Rightarrow> json \<Rightarrow> bool" where
  "sectioned_rel default_section sec res =
     (\<exists>d sds. sec = JDict d
        \<and> iterate (get_or d ''sentences'' (JList [])) = Inr (map JDict sds)
        \<and> res = section_dict (get_or d ''sectionTitle'' (JStr default_section),
                               map sectioned_sentence sds))"

text \<open>
  The round trip in the words of the specification: a sentence with its defaults filled
  (\<^verbatim>\<open>original\<close> unchanged or the empty string, \<^verbatim>\<open>translations\<close> unchanged or the empty
  mapping, \<^verbatim>\<open>root\<close> as a boolean, false when absent), and a section with its title and its
  sentences filled.
\<close>

fun filled_sentence :: "json \<Rightarrow> json" where
  "filled_sentence (JDict s) =
     JDict [(''original'', case map_of s ''original'' of None \<Rightarrow> JStr '''' | Some v \<Rightarrow> v),
            (''translations'', case map_of s ''translations'' of None \<Rightarrow> JDict [] | Some v \<Rightarrow> v),
            (''root'', JBool (case map_of s ''root'' of None \<Rightarrow> False | Some v \<Rightarrow> truthy v))]"
| "filled_sentence v = v"

fun filled_section :: "json \<Rightarrow> json" where
  "filled_section (JDict d) =
     (case (map_of d ''sectionTitle'', map_of d ''sentences'') of
        (Some title, Some (JList ss)) \<Rightarrow>
          JDict [(''sectionTitle'', title), (''sentences'', JList (map filled_sentence ss))]
      | _ \<Rightarrow> JDict d)"
| "filled_section v = v"

text \<open>
  The form of every section and sentence that the normalizer returns.
\<close>

definition canonical_sentence :: "json \<Rightarrow> bool" where
  "canonical_sentence s =
     (\<exists>orig tr b. s = JDict [(''original'', orig), (''translations'', tr), (''root'', JBool b)])"

definition canonical_section :: "json \<Rightarrow> bool" where
  "canonical_section sec =
     (\<exists>title ss. sec = section_dict (title, ss) \<and> list_all canonical_sentence ss)"

text \<open>
  A section with a sentence that is not a mapping, and the error raised for it.
\<close>

definition bad_sentence_in :: "piece list \<Rightarrow> json \<Rightarrow> bool" where
  "bad_sentence_in ps sec =
     (\<exists>d its v. sec = JDict d
        \<and> iterate (get_or d ''sentences'' (JList [])) = Inr its
        \<and> v \<in> set its \<and> (\<forall>d'. v \<noteq> JDict d')
        \<and> ps = [Lit ''Sentence must be an object: '', ReprOf v])"

subsection \<open>Example inputs\<close>

text \<open>
  The entry with \<^verbatim>\<open>translations: {"fr": "bonjour"}\<close> and \<^verbatim>\<open>translation: "hi"\<close>, and the entry
  with \<^verbatim>\<open>translations: {"en": "old"}\<close> and \<^verbatim>\<open>translation: {"en": "new"}\<close>.
\<close>

definition example_fr_hi :: pydict where
  "example_fr_hi =
     [(''translations'', JDict [(''fr'', JStr ''bonjour'')]), (''translation'', JStr ''hi'')]"

definition example_old_new :: pydict where
  "example_old_new =
     [(''translations'', JDict [(''en'', JStr ''old'')]),
      (''translation'', JDict [(''en'', JStr ''new'')])]"

text \<open>
  Flat lists: three entries in the sections \<^verbatim>\<open>A\<close>, \<^verbatim>\<open>B\<close>, \<^verbatim>\<open>A\<close>; two entries with the
  sections \<^verbatim>\<open>""\<close> and \<^verbatim>\<open>"Text"\<close>; two entries with the sections \<^verbatim>\<open>true\<close> and \<^verbatim>\<open>1\<close>; two entries
  without \<^verbatim>\<open>section\<close>; three entries of which
  the third lacks \<^verbatim>\<open>original\<close>; one entry with a \<^verbatim>\<open>translation\<close> only; one entry with a
  given value as its \<^verbatim>\<open>translations\<close>.
\<close>

definition example_aba :: "json list" where
  "example_aba =
     [JDict [(''original'', JStr ''one''), (''section'', JStr ''A'')],
      JDict [(''original'', JStr ''two''), (''section'', JStr ''B'')],
      JDict [(''original'', JStr ''three''), (''section'', JStr ''A''), (''root'', JInt 1)]]"

definition example_aba_out :: "json list" where
  "example_aba_out =
     [JDict [(''sectionTitle'', JStr ''A''),
             (''sentences'', JList
                [JDict [(''original'', JStr ''one''), (''translations'', JDict []),
                        (''root'', JBool False)],
                 JDict [(''original'', JStr ''three''), (''translations'', JDict []),
                        (''root'', JBool True)]])],
      JDict [(''sectionTitle'', JStr ''B''),
             (''sentences'', JList
                [JDict [(''original'', JStr ''two''), (''translations'', JDict []),
                        (''root'', JBool False)]])]]"

definition example_falsy_section :: "json list" where
  "example_falsy_section =
     [JDict [(''original'', JStr ''one''), (''section'', JStr '''')],
      JDict [(''original'', JStr ''two''), (''section'', JStr ''Text'')]]"

definition example_falsy_section_out :: "json list" where
  "example_falsy_section_out =
     [JDict [(''sectionTitle'', JStr ''Text''),
             (''sentences'', JList
                [JDict [(''original'', JStr ''one''), (''translations'', JDict []),
                        (''root'', JBool False)],
                 JDict [(''original'', JStr ''two''), (''translations'', JDict []),
                        (''root'', JBool False)]])]]"

definition example_true_one :: "json list" where
  "example_true_one =
     [JDict [(''original'', JStr ''one''), (''section'', JBool True)],
      JDict [(''original'', JStr ''two''), (''section'', JInt 1)]]"

definition example_no_section :: "json list" where
  "example_no_section =
     [JDict [(''original'', JStr ''one'')], JDict [(''original'', JStr ''two'')]]"

definition example_no_section_out :: "json list" where
  "example_no_section_out =
     [JDict [(''sectionTitle'', JStr ''Text''),
             (''sentences'', JList
                [JDict [(''original'', JStr ''one''), (''translations'', JDict []),
                        (''root'', JBool False)],
                 JDict [(''original'', JStr ''two''), (''translations'', JDict []),
                        (''root'', JBool False)]])]]"

definition example_third_bad :: "json list" where
  "example_third_bad =
     [JDict [(''original'', JStr ''one'')],
      JDict [(''original'', JStr ''two''), (''translation'', JStr ''zwei'')],
      JDict [(''translation'', JStr ''drei'')]]"

definition example_translation_only :: "json list" where
  "example_translation_only =
     [JDict [(''original'', JStr ''one''), (''translation'', JStr ''hi'')]]"

definition example_bad_translations :: "json \<Rightarrow> json" where
  "example_bad_translations v =
     JList [JDict [(''original'', JStr ''one''), (''translations'', v)]]"

text \<open>
  Lists of the sectioned shape: sections with a falsy title; two sections, one with
  sentences that lack keys; a section whose sentences are some given values and then the
  number 7; a section with a sentence whose \<^verbatim>\<open>translations\<close> is null; a section with a
  sentence without \<^verbatim>\<open>translations\<close> and one with a mapping.
\<close>

definition example_empty_titles :: "json list" where
  "example_empty_titles =
     [JDict [(''sectionTitle'', JStr ''''), (''sentences'', JList [])],
      JDict [(''sectionTitle'', JNull), (''sentences'', JList [])]]"

definition example_sectioned :: "json list" where
  "example_sectioned =
     [JDict [(''sectionTitle'', JStr ''One''),
             (''sentences'', JList
                [JDict [(''original'', JStr ''salut''), (''root'', JInt 1)],
                 JDict [(''translations'', JDict [(''en'', JStr ''bye'')])]])],
      JDict [(''sectionTitle'', JStr ''Two''), (''sentences'', JList [])]]"

definition example_sectioned_out :: "json list" where
  "example_sectioned_out =
     [JDict [(''sectionTitle'', JStr ''One''),
             (''sentences'', JList
                [JDict [(''original'', JStr ''salut''), (''translations'', JDict []),
                        (''root'', JBool True)],
                 JDict [(''original'', JStr ''''),
                        (''translations'', JDict [(''en'', JStr ''bye'')]),
                        (''root'', JBool False)]])],
      JDict [(''sectionTitle'', JStr ''Two''), (''sentences'', JList [])]]"

definition example_bad_sentence :: "json list \<Rightarrow> json" where
  "example_bad_sentence before =
     JList [JDict [(''sectionTitle'', JStr ''S''),
                   (''sentences'', JList (before @ [JInt 7]))]]"

definition example_null_translations :: "json list" where
  "example_null_translations =
     [JDict [(''sectionTitle'', JStr ''S''),
             (''sentences'', JList [JDict [(''original'', JStr ''one''),
                                           (''translations'', JNull)]])]]"

definition example_absent_translations :: "json list" where
  "example_absent_translations =
     [JDict [(''sectionTitle'', JStr ''S''),
             (''sentences'', JList [JDict [(''original'', JStr ''one'')],
                                    JDict [(''translations'', JDict [(''en'', JStr ''two'')])]])]]"

section \<open>The empty list\<close>

text \<open>
  C9. Normalizing the empty list returns the empty Document, an empty list of sections,
  and raises no error, whatever the default section title and the default language code
  are: the empty list passes the test for the sectioned shape, so it is neither handed
  to \<open>normalize_sentences\<close> nor refused as an unsupported shape.
\<close>

theorem normalize_data_empty:
  "normalize_data (JList []) default_section default_lang = Inr []
   \<and> list_all is_section_shape []
   \<and> normalize_data (JList []) default_section default_lang
       = sections_loop default_section [] []"
  by simp

section \<open>Dictionaries\<close>

lemma map_of_dict_set: "map_of (dict_set d k v) = (map_of d)(k \<mapsto> v)"
  by (induction d k v rule: dict_set.induct) (auto simp: fun_eq_iff)

lemma keys_dict_set:
  "map fst (dict_set d k v) = (if k \<in> set (map fst d) then map fst d else map fst d @ [k])"
  by (induction d k v rule: dict_set.induct) auto

lemma dict_set_fresh: "k \<notin> set (map fst d) \<Longrightarrow> dict_set d k v = d @ [(k, v)]"
  by (induction d k v rule: dict_set.induct) auto

lemma dict_update_Nil: "dict_update d [] = d"
  by (simp add: dict_update_def)

lemma dict_update_Cons: "dict_update d ((k, v) # e) = dict_update (dict_set d k v) e"
  by (simp add: dict_update_def)

lemma dict_update_distinct:
  "distinct (map fst (d @ e)) \<Longrightarrow> dict_update d e = d @ e"
proof (induction e arbitrary: d)
  case Nil
  then show ?case by (simp add: dict_update_Nil)
next
  case (Cons p e)
  obtain k v where p: "p = (k, v)" by (cases p)
  from Cons.prems p have fresh: "k \<notin> set (map fst d)" by auto
  from Cons.prems p have "distinct (map fst ((d @ [(k, v)]) @ e))" by auto
  then have "dict_update (d @ [(k, v)]) e = (d @ [(k, v)]) @ e" by (rule Cons.IH)
  with fresh p show ?case by (simp add: dict_update_Cons dict_set_fresh)
qed

text \<open>Updating the empty dictionary with a dictionary copies it.\<close>

lemma dict_update_wf: "wf_dict t \<Longrightarrow> dict_update [] t = t"
  using dict_update_distinct [of "[]" t] by (simp add: wf_dict_def)

lemma map_of_dict_update: "map_of (dict_update d e) = map_of d ++ map_of (rev e)"
proof (induction e arbitrary: d)
  case Nil
  then show ?case by (simp add: dict_update_Nil)
next
  case (Cons p e)
  obtain k v where p: "p = (k, v)" by (cases p)
  have "map_of (dict_update d (p # e)) = (map_of d)(k \<mapsto> v) ++ map_of (rev e)"
    by (simp only: p dict_update_Cons Cons.IH map_of_dict_set)
  also have "\<dots> = map_of d ++ map_of (rev (p # e))"
    by (auto simp: p fun_eq_iff map_add_def split: option.splits)
  finally show ?case .
qed

lemma map_of_rev_wf: "wf_dict e \<Longrightarrow> map_of (rev e) = map_of e"
proof (induction e)
  case Nil
  then show ?case by simp
next
  case (Cons p e)
  obtain k v where p: "p = (k, v)" by (cases p)
  from Cons.prems p have "map_of e k = None"
    by (simp add: wf_dict_def map_of_eq_None_iff)
  moreover from Cons have "map_of (rev e) = map_of e" by (simp add: wf_dict_def)
  ultimately show ?case
    by (auto simp: p fun_eq_iff map_add_def split: option.splits)
qed

lemma map_of_dict_update_wf:
  "wf_dict e \<Longrightarrow> map_of (dict_update d e) = map_of d ++ map_of e"
  by (simp add: map_of_dict_update map_of_rev_wf)

lemma keys_dict_update:
  "distinct (map fst e) \<Longrightarrow>
   map fst (dict_update d e) = map fst d @ filter (\<lambda>k. k \<notin> set (map fst d)) (map fst e)"
proof (induction e arbitrary: d)
  case Nil
  then show ?case by (simp add: dict_update_Nil)
next
  case (Cons p e)
  obtain k v where p: "p = (k, v)" by (cases p)
  from Cons.prems p have k: "k \<notin> set (map fst e)" and de: "distinct (map fst e)" by auto
  have IH: "map fst (dict_update (dict_set d k v) e) =
      map fst (dict_set d k v) @ filter (\<lambda>x. x \<notin> set (map fst (dict_set d k v))) (map fst e)"
    using de by (rule Cons.IH)
  show ?case
  proof (cases "k \<in> set (map fst d)")
    case True
    with IH p show ?thesis by (simp add: dict_update_Cons keys_dict_set)
  next
    case False
    have "filter (\<lambda>x. x \<noteq> k \<and> x \<notin> set (map fst d)) (map fst e)
        = filter (\<lambda>x. x \<notin> set (map fst d)) (map fst e)"
      using k by (intro filter_cong) auto
    with False IH p show ?thesis by (simp add: dict_update_Cons keys_dict_set)
  qed
qed

lemma wf_dict_set: "wf_dict d \<Longrightarrow> wf_dict (dict_set d k v)"
  by (simp add: wf_dict_def keys_dict_set)

lemma wf_dict_update: "wf_dict d \<Longrightarrow> wf_dict (dict_update d e)"
proof (induction e arbitrary: d)
  case Nil
  then show ?case by (simp add: dict_update_Nil)
next
  case (Cons p e)
  then show ?case by (cases p) (simp add: dict_update_Cons wf_dict_set)
qed

section \<open>The \<^verbatim>\<open>translation\<close> field of a flat entry\<close>

lemma entry_translations_string:
  assumes "map_of item ''translation'' = Some (JStr s)"
    and "map_of item ''translations'' = Some (JDict t)" and "wf_dict t"
  shows "entry_translations index default_lang item
           = Inr (if map_of t default_lang = None then t @ [(default_lang, JStr s)] else t)"
  using assms by (simp add: entry_translations_def dict_update_wf dict_setdefault_def)

lemma entry_translations_string_none:
  assumes "map_of item ''translation'' = Some (JStr s)"
    and "map_of item ''translations'' = None \<or> map_of item ''translations'' = Some JNull"
  shows "entry_translations index default_lang item = Inr [(default_lang, JStr s)]"
  using assms by (auto simp: entry_translations_def dict_setdefault_def)

lemma example_fr_hi_entry:
  "entry_translations index ''en'' example_fr_hi
     = Inr [(''fr'', JStr ''bonjour''), (''en'', JStr ''hi'')]"
  by (simp add: example_fr_hi_def entry_translations_def dict_update_def dict_setdefault_def)

lemma example_fr_hi_data:
  "normalize_data (JList [JDict ((''original'', JStr ''salut'') # example_fr_hi)]) ''Text'' ''en''
     = Inr [JDict [(''sectionTitle'', JStr ''Text''),
                   (''sentences'', JList [JDict [(''original'', JStr ''salut''),
                      (''translations'', JDict [(''fr'', JStr ''bonjour''), (''en'', JStr ''hi'')]),
                      (''root'', JBool False)]])]]"
  by (simp add: example_fr_hi_def normalize_sentences_def entry_translations_def dict_update_def
      dict_setdefault_def section_title_of_def get_or_def section_dict_def)

text \<open>
  C2. In a flat-list entry whose \<^verbatim>\<open>translation\<close> field is a string, the string is stored
  under the default language code only if the entry's \<^verbatim>\<open>translations\<close> mapping has not set
  that key: the merged translations are the \<^verbatim>\<open>translations\<close> mapping itself when it holds
  the key, and the mapping followed by the new pair when it does not (the new pair alone
  when \<^verbatim>\<open>translations\<close> is absent or null). In particular the entry with
  \<^verbatim>\<open>translations: {"fr": "bonjour"}\<close> and \<^verbatim>\<open>translation: "hi"\<close> under the default language
  \<^verbatim>\<open>"en"\<close> yields exactly \<^verbatim>\<open>{"fr": "bonjour", "en": "hi"}\<close>, also in the Document that
  \<open>normalize_data\<close> returns for it.
\<close>

theorem translation_string_set_if_absent:
  "(map_of item ''translation'' = Some (JStr s) \<and> map_of item ''translations'' = Some (JDict t)
      \<and> wf_dict t \<longrightarrow>
      entry_translations index default_lang item
        = Inr (if map_of t default_lang = None then t @ [(default_lang, JStr s)] else t))
   \<and> (map_of item ''translation'' = Some (JStr s)
      \<and> (map_of item ''translations'' = None \<or> map_of item ''translations'' = Some JNull) \<longrightarrow>
      entry_translations index default_lang item = Inr [(default_lang, JStr s)])
   \<and> entry_translations index ''en'' example_fr_hi
        = Inr [(''fr'', JStr ''bonjour''), (''en'', JStr ''hi'')]
   \<and> normalize_data (JList [JDict ((''original'', JStr ''salut'') # example_fr_hi)]) ''Text'' ''en''
     = Inr [JDict [(''sectionTitle'', JStr ''Text''),
                   (''sentences'', JList [JDict [(''original'', JStr ''salut''),
                      (''translations'', JDict [(''fr'', JStr ''bonjour''), (''en'', JStr ''hi'')]),
                      (''root'', JBool False)]])]]"
  using entry_translations_string entry_translations_string_none example_fr_hi_entry
    example_fr_hi_data by blast

text \<open>The theorem at an entry whose \<^verbatim>\<open>translations\<close> already holds the default language,
  and at an entry with no \<^verbatim>\<open>translations\<close>.\<close>

theorem translation_string_set_if_absent_witness:
  "entry_translations 1 ''en''
      [(''original'', JStr ''a''), (''translations'', JDict [(''en'', JStr ''kept'')]),
       (''translation'', JStr ''hi'')]
     = Inr [(''en'', JStr ''kept'')]
   \<and> entry_translations 2 ''en'' [(''original'', JStr ''a''), (''translation'', JStr ''hi'')]
     = Inr [(''en'', JStr ''hi'')]"
  using translation_string_set_if_absent
      [where item = "[(''original'', JStr ''a''), (''translations'', JDict [(''en'', JStr ''kept'')]),
                      (''translation'', JStr ''hi'')]"
         and s = "''hi''" and t = "[(''en'', JStr ''kept'')]" and index = 1
         and default_lang = "''en''"]
    translation_string_set_if_absent
      [where item = "[(''original'', JStr ''a''), (''translation'', JStr ''hi'')]"
         and s = "''hi''" and index = 2 and default_lang = "''en''"]
  by (simp add: wf_dict_def)

lemma entry_translations_mapping:
  assumes "map_of item ''translation'' = Some (JDict m)" and "wf_dict m"
    and "map_of item ''translations'' = Some (JDict t)" and "wf_dict t"
  shows "\<exists>r. entry_translations index default_lang item = Inr r \<and> wf_dict r
           \<and> map_of r = map_of t ++ map_of m
           \<and> map fst r = map fst t @ filter (\<lambda>k. k \<notin> set (map fst t)) (map fst m)"
proof -
  have "entry_translations index default_lang item = Inr (dict_update t m)"
    using assms by (simp add: entry_translations_def dict_update_wf)
  moreover have "wf_dict (dict_update t m)"
    using assms(4) by (rule wf_dict_update)
  moreover have "map_of (dict_update t m) = map_of t ++ map_of m"
    using assms(2) by (rule map_of_dict_update_wf)
  moreover have "map fst (dict_update t m)
      = map fst t @ filter (\<lambda>k. k \<notin> set (map fst t)) (map fst m)"
    using assms(2) by (simp add: keys_dict_update wf_dict_def)
  ultimately show ?thesis by blast
qed

lemma entry_translations_mapping_none:
  assumes "map_of item ''translation'' = Some (JDict m)" and "wf_dict m"
    and "map_of item ''translations'' = None \<or> map_of item ''translations'' = Some JNull"
  shows "entry_translations index default_lang item = Inr m"
  using assms by (auto simp: entry_translations_def dict_update_wf)

lemma example_old_new_entry:
  "entry_translations index default_lang example_old_new = Inr [(''en'', JStr ''new'')]"
  by (simp add: example_old_new_def entry_translations_def dict_update_def)

lemma example_old_new_data:
  "normalize_data (JList [JDict ((''original'', JStr ''salut'') # example_old_new)])
       default_section default_lang
     = Inr [JDict [(''sectionTitle'', JStr default_section),
                   (''sentences'', JList [JDict [(''original'', JStr ''salut''),
                      (''translations'', JDict [(''en'', JStr ''new'')]),
                      (''root'', JBool False)]])]]"
  by (simp add: example_old_new_def normalize_sentences_def entry_translations_def dict_update_def
      section_title_of_def get_or_def section_dict_def)

text \<open>
  C3. In a flat-list entry whose \<^verbatim>\<open>translation\<close> field is a mapping, its pairs are merged
  into the entry's translations and overwrite the keys that the \<^verbatim>\<open>translations\<close> field has
  set: a key of \<^verbatim>\<open>translation\<close> reads the value \<^verbatim>\<open>translation\<close> gives it, any other key
  the value of \<^verbatim>\<open>translations\<close>; the keys of \<^verbatim>\<open>translations\<close> keep their places and the new
  keys follow. In particular the entry with \<^verbatim>\<open>translations: {"en": "old"}\<close> and
  \<^verbatim>\<open>translation: {"en": "new"}\<close> yields exactly \<^verbatim>\<open>{"en": "new"}\<close>, also in the Document that
  \<open>normalize_data\<close> returns for it.
\<close>

theorem translation_mapping_overwrites:
  "(map_of item ''translation'' = Some (JDict m) \<and> wf_dict m
      \<and> map_of item ''translations'' = Some (JDict t) \<and> wf_dict t \<longrightarrow>
      (\<exists>r. entry_translations index default_lang item = Inr r \<and> wf_dict r
         \<and> map_of r = map_of t ++ map_of m
         \<and> map fst r = map fst t @ filter (\<lambda>k. k \<notin> set (map fst t)) (map fst m)))
   \<and> (map_of item ''translation'' = Some (JDict m) \<and> wf_dict m
      \<and> (map_of item ''translations'' = None \<or> map_of item ''translations'' = Some JNull) \<longrightarrow>
      entry_translations index default_lang item = Inr m)
   \<and> entry_translations index default_lang example_old_new = Inr [(''en'', JStr ''new'')]
   \<and> normalize_data (JList [JDict ((''original'', JStr ''salut'') # example_old_new)])
       default_section default_lang
     = Inr [JDict [(''sectionTitle'', JStr default_section),
                   (''sentences'', JList [JDict [(''original'', JStr ''salut''),
                      (''translations'', JDict [(''en'', JStr ''new'')]),
                      (''root'', JBool False)]])]]"
  using entry_translations_mapping entry_translations_mapping_none example_old_new_entry
    example_old_new_data by blast

text \<open>The theorem at an entry whose \<^verbatim>\<open>translation\<close> overwrites one key and adds another,
  and at an entry whose \<^verbatim>\<open>translations\<close> is null.\<close>

theorem translation_mapping_overwrites_witness:
  "(\<exists>r. entry_translations 1 ''en''
          [(''original'', JStr ''a''),
           (''translations'', JDict [(''en'', JStr ''old''), (''fr'', JStr ''vieux'')]),
           (''translation'', JDict [(''de'', JStr ''neu''), (''en'', JStr ''new'')])] = Inr r
        \<and> map_of r ''en'' = Some (JStr ''new'') \<and> map_of r ''fr'' = Some (JStr ''vieux'')
        \<and> map_of r ''de'' = Some (JStr ''neu'') \<and> map fst r = [''en'', ''fr'', ''de''])
   \<and> entry_translations 2 ''en''
        [(''original'', JStr ''a''), (''translations'', JNull),
         (''translation'', JDict [(''en'', JStr ''new'')])]
     = Inr [(''en'', JStr ''new'')]"
proof -
  define t where "t = [(''en'', JStr ''old''), (''fr'', JStr ''vieux'')]"
  define m where "m = [(''de'', JStr ''neu''), (''en'', JStr ''new'')]"
  define item where
    "item = [(''original'', JStr ''a''), (''translations'', JDict t), (''translation'', JDict m)]"
  have "map_of item ''translation'' = Some (JDict m) \<and> wf_dict m
      \<and> map_of item ''translations'' = Some (JDict t) \<and> wf_dict t"
    by (simp add: item_def wf_dict_def t_def m_def)
  with translation_mapping_overwrites
      [where item = item and m = m and t = t and index = 1 and default_lang = "''en''"]
  obtain r where r: "entry_translations 1 ''en'' item = Inr r"
    "map_of r = map_of t ++ map_of m"
    "map fst r = map fst t @ filter (\<lambda>k. k \<notin> set (map fst t)) (map fst m)"
    by blast
  have look: "map_of r ''en'' = Some (JStr ''new'')" "map_of r ''fr'' = Some (JStr ''vieux'')"
    "map_of r ''de'' = Some (JStr ''neu'')" "map fst r = [''en'', ''fr'', ''de'']"
    unfolding r(2) r(3) by (simp_all add: t_def m_def)
  have first: "\<exists>r. entry_translations 1 ''en'' item = Inr r
        \<and> map_of r ''en'' = Some (JStr ''new'') \<and> map_of r ''fr'' = Some (JStr ''vieux'')
        \<and> map_of r ''de'' = Some (JStr ''neu'') \<and> map fst r = [''en'', ''fr'', ''de'']"
    by (rule exI [of _ r]) (simp only: r(1) look)
  have second: "entry_translations 2 ''en''
        [(''original'', JStr ''a''), (''translations'', JNull),
         (''translation'', JDict [(''en'', JStr ''new'')])]
     = Inr [(''en'', JStr ''new'')]"
    using translation_mapping_overwrites
      [where item = "[(''original'', JStr ''a''), (''translations'', JNull),
                      (''translation'', JDict [(''en'', JStr ''new'')])]"
         and m = "[(''en'', JStr ''new'')]" and index = 2 and default_lang = "''en''"]
    by (simp add: wf_dict_def)
  from first second show ?thesis unfolding item_def t_def m_def by (rule conjI)
qed

section \<open>The loop over a flat list\<close>

lemma flat_loop_append_all:
  "flat_loop index ds dl items secs = Inr r \<Longrightarrow>
   \<exists>ps. length ps = length items
      \<and> (\<forall>i<length items. flat_entry (index + i) ds dl (items ! i) = Inr (ps ! i))
      \<and> r = append_all secs ps"
proof (induction items arbitrary: index secs)
  case Nil
  then show ?case by (simp add: append_all_def)
next
  case (Cons item items)
  from Cons.prems obtain t s where e: "flat_entry index ds dl item = Inr (t, s)"
    and r: "flat_loop (Suc index) ds dl items (sections_append secs t s) = Inr r"
    by (auto split: sum.splits)
  from Cons.IH [OF r] obtain ps where ps: "length ps = length items"
    "\<forall>i<length items. flat_entry (Suc index + i) ds dl (items ! i) = Inr (ps ! i)"
    "r = append_all (sections_append secs t s) ps" by blast
  have "\<forall>i<length (item # items).
          flat_entry (index + i) ds dl ((item # items) ! i) = Inr (((t, s) # ps) ! i)"
  proof (intro allI impI)
    fix i assume "i < length (item # items)"
    then show "flat_entry (index + i) ds dl ((item # items) ! i) = Inr (((t, s) # ps) ! i)"
      using e ps(2) by (cases i) auto
  qed
  moreover have "r = append_all secs ((t, s) # ps)"
    using ps(3) by (simp add: append_all_def)
  ultimately show ?case using ps(1)
    by (intro exI [of _ "(t, s) # ps"]) simp
qed

lemma set_first_by: "set (first_by key xs) \<subseteq> set xs"
  by (induction key xs rule: first_by.induct) auto

lemma sections_append_new:
  "key_of t \<notin> set (map (\<lambda>p. key_of (fst p)) secs) \<Longrightarrow>
   sections_append secs t s = secs @ [(t, [s])]"
  by (induction secs t s rule: sections_append.induct) auto

lemma sections_append_old:
  "key_of t \<in> set (map (\<lambda>p. key_of (fst p)) secs) \<Longrightarrow>
   distinct (map (\<lambda>p. key_of (fst p)) secs) \<Longrightarrow>
   sections_append secs t s
     = map (\<lambda>p. (fst p, if key_of (fst p) = key_of t then snd p @ [s] else snd p)) secs"
proof (induction secs t s rule: sections_append.induct)
  case (1 title sentence)
  then show ?case by simp
next
  case (2 t ss rest title sentence)
  show ?case
  proof (cases "key_of t = key_of title")
    case True
    with "2.prems" have "\<forall>p\<in>set rest. key_of (fst p) \<noteq> key_of title"
      by (force simp: image_iff)
    then have "map (\<lambda>p. (fst p, if key_of (fst p) = key_of title then snd p @ [sentence] else snd p)) rest = rest"
      by (induction rest) auto
    with True show ?thesis by simp
  next
    case False
    with 2 show ?thesis by auto
  qed
qed

lemma members_Cons:
  "members key t (p # ps) = (if key (fst p) = key t then snd p # members key t ps else members key t ps)"
  by (simp add: members_def)

lemma members_filter:
  "(\<And>u. key u = key t \<Longrightarrow> P u) \<Longrightarrow>
   members key t (filter (\<lambda>p. P (fst p)) ps) = members key t ps"
  by (induction ps) (simp_all add: members_def)

lemma append_all_Cons: "append_all secs ((t, s) # ps) = append_all (sections_append secs t s) ps"
  by (simp add: append_all_def)

lemma grouped_Cons:
  assumes "key_of t \<notin> K"
  shows "grouped key_of ((t, s) # filter (\<lambda>q. key_of (fst q) \<notin> K) ps)
       = (t, s # members key_of t ps)
         # grouped key_of (filter (\<lambda>q. key_of (fst q) \<notin> insert (key_of t) K) ps)"
proof -
  define qs where "qs = filter (\<lambda>q. key_of (fst q) \<notin> K) ps"
  define qs' where "qs' = filter (\<lambda>q. key_of (fst q) \<noteq> key_of t) qs"
  have qs': "filter (\<lambda>q. key_of (fst q) \<notin> insert (key_of t) K) ps = qs'"
    unfolding qs'_def qs_def filter_filter by (rule filter_cong) auto
  have fm: "filter (\<lambda>y. key_of y \<noteq> key_of t) (map fst qs) = map fst qs'"
    unfolding qs'_def by (simp add: filter_map comp_def)
  have mt: "members key_of t qs = members key_of t ps"
    unfolding qs_def using assms by (intro members_filter) simp
  have mem: "members key_of u ((t, s) # qs) = members key_of u qs'"
    if "u \<in> set (first_by key_of (map fst qs'))" for u
  proof -
    from that have "u \<in> set (map fst qs')" using set_first_by by fastforce
    then have ne: "key_of u \<noteq> key_of t" unfolding qs'_def by auto
    then have "members key_of u qs' = members key_of u qs"
      unfolding qs'_def by (intro members_filter) simp
    with ne show ?thesis by (simp add: members_Cons)
  qed
  have "grouped key_of ((t, s) # qs)
      = (t, members key_of t ((t, s) # qs))
        # map (\<lambda>u. (u, members key_of u ((t, s) # qs))) (first_by key_of (map fst qs'))"
    by (simp add: grouped_def fm)
  also have "members key_of t ((t, s) # qs) = s # members key_of t ps"
    by (simp add: members_Cons mt)
  also have "map (\<lambda>u. (u, members key_of u ((t, s) # qs))) (first_by key_of (map fst qs'))
      = grouped key_of qs'"
    unfolding grouped_def by (rule map_cong) (simp_all add: mem)
  finally show ?thesis unfolding qs' qs_def .
qed

lemma append_all_grouped:
  "distinct (map (\<lambda>p. key_of (fst p)) secs) \<Longrightarrow>
   append_all secs ps
     = map (\<lambda>p. (fst p, snd p @ members key_of (fst p) ps)) secs
       @ grouped key_of (filter (\<lambda>p. key_of (fst p) \<notin> keys_of secs) ps)"
proof (induction ps arbitrary: secs)
  case Nil
  then show ?case by (simp add: append_all_def grouped_def members_def)
next
  case (Cons p ps)
  obtain t s where p: "p = (t, s)" by (cases p)
  show ?case
  proof (cases "key_of t \<in> keys_of secs")
    case True
    define secs' where
      "secs' = map (\<lambda>p. (fst p, if key_of (fst p) = key_of t then snd p @ [s] else snd p)) secs"
    have a: "sections_append secs t s = secs'"
      unfolding secs'_def using True Cons.prems
      by (intro sections_append_old) (simp_all add: keys_of_def)
    have keys: "map (\<lambda>p. key_of (fst p)) secs' = map (\<lambda>p. key_of (fst p)) secs"
      by (simp add: secs'_def comp_def)
    then have K: "keys_of secs' = keys_of secs" by (simp add: keys_of_def)
    have d: "distinct (map (\<lambda>p. key_of (fst p)) secs')"
      using Cons.prems by (simp only: keys)
    have "append_all secs (p # ps) = map (\<lambda>p. (fst p, snd p @ members key_of (fst p) ps)) secs'
       @ grouped key_of (filter (\<lambda>p. key_of (fst p) \<notin> keys_of secs') ps)"
      unfolding p append_all_Cons a by (rule Cons.IH [OF d])
    also have "map (\<lambda>p. (fst p, snd p @ members key_of (fst p) ps)) secs'
        = map (\<lambda>q. (fst q, snd q @ members key_of (fst q) (p # ps))) secs"
      by (simp add: secs'_def p members_Cons comp_def)
    also have "filter (\<lambda>p. key_of (fst p) \<notin> keys_of secs') ps
        = filter (\<lambda>q. key_of (fst q) \<notin> keys_of secs) (p # ps)"
      using True by (simp add: K p)
    finally show ?thesis .
  next
    case False
    have a: "sections_append secs t s = secs @ [(t, [s])]"
      using False by (intro sections_append_new) (simp add: keys_of_def)
    have d: "distinct (map (\<lambda>p. key_of (fst p)) (secs @ [(t, [s])]))"
      using Cons.prems False by (simp add: keys_of_def)
    have K: "keys_of (secs @ [(t, [s])]) = insert (key_of t) (keys_of secs)"
      by (simp add: keys_of_def)
    have IH: "append_all secs (p # ps)
       = map (\<lambda>p. (fst p, snd p @ members key_of (fst p) ps)) (secs @ [(t, [s])])
         @ grouped key_of (filter (\<lambda>q. key_of (fst q) \<notin> insert (key_of t) (keys_of secs)) ps)"
      unfolding p append_all_Cons a K [symmetric] by (rule Cons.IH [OF d])
    have m1: "map (\<lambda>q. (fst q, snd q @ members key_of (fst q) ps)) secs
        = map (\<lambda>q. (fst q, snd q @ members key_of (fst q) (p # ps))) secs"
      using False by (intro map_cong) (auto simp: p members_Cons keys_of_def)
    have f: "filter (\<lambda>q. key_of (fst q) \<notin> keys_of secs) (p # ps)
        = (t, s) # filter (\<lambda>q. key_of (fst q) \<notin> keys_of secs) ps"
      using False by (simp add: p)
    show ?thesis
      unfolding IH f grouped_Cons [OF False] m1 [symmetric] by simp
  qed
qed

lemma append_all_empty: "append_all [] ps = grouped key_of ps"
  using append_all_grouped [of "[]" ps] by (simp add: keys_of_def)

section \<open>The sections of a flat list\<close>

lemma flat_entry_Inr:
  assumes "flat_entry index ds dl item = Inr (t, s)"
  shows "\<exists>d original tr. item = JDict d \<and> map_of d ''original'' = Some original
           \<and> entry_translations index dl d = Inr tr
           \<and> t = section_title_of ds d \<and> key_of t \<noteq> None
           \<and> s = JDict [(''original'', original), (''translations'', JDict tr),
                         (''root'', JBool (truthy (get_or d ''root'' (JBool False))))]"
  using assms by (cases item) (auto simp: Let_def split: option.splits sum.splits)

lemma first_by_inj:
  "inj_on key (set xs) \<Longrightarrow> first_by key xs = first_by (\<lambda>t. t) xs"
proof (induction key xs rule: first_by.induct)
  case (1 key)
  then show ?case by simp
next
  case (2 key x xs)
  have f: "filter (\<lambda>y. key y \<noteq> key x) xs = filter (\<lambda>y. y \<noteq> x) xs"
    using "2.prems" by (intro filter_cong) (auto simp: inj_on_def)
  have "inj_on key (set (filter (\<lambda>y. key y \<noteq> key x) xs))"
    using "2.prems" by (auto simp: inj_on_def)
  then have "first_by key (filter (\<lambda>y. key y \<noteq> key x) xs)
      = first_by (\<lambda>t. t) (filter (\<lambda>y. key y \<noteq> key x) xs)" by (rule "2.IH")
  then show ?case by (simp add: f)
qed

lemma grouped_inj:
  assumes "inj_on key (set (map fst ps))"
  shows "grouped key ps = grouped (\<lambda>t. t) ps"
proof -
  have m: "members key t ps = members (\<lambda>t. t) t ps" if "t \<in> set (map fst ps)" for t
    unfolding members_def using assms that
    by (intro arg_cong [where f = "map snd"] filter_cong) (auto simp: inj_on_def)
  have "members key t ps = members (\<lambda>t. t) t ps"
    if "t \<in> set (first_by (\<lambda>t. t) (map fst ps))" for t
    using that set_first_by [of "\<lambda>t. t" "map fst ps"] by (intro m) blast
  then show ?thesis
    unfolding grouped_def first_by_inj [OF assms] by (intro map_cong) simp_all
qed

lemma key_of_JStr_inj: "inj_on key_of (range JStr)"
  by (auto simp: inj_on_def)

lemma normalize_sentences_grouped:
  assumes "normalize_sentences items ds dl = Inr out"
  shows "\<exists>ps. length ps = length items
      \<and> (\<forall>i<length items. flat_entry (Suc i) ds dl (items ! i) = Inr (ps ! i))
      \<and> (\<forall>i<length items. \<exists>d. items ! i = JDict d \<and> fst (ps ! i) = section_title_of ds d)
      \<and> out = map section_dict (grouped key_of ps)"
proof -
  from assms obtain secs where secs: "flat_loop 1 ds dl items [] = Inr secs"
    and out: "out = map section_dict secs"
    by (auto simp: normalize_sentences_def split: sum.splits)
  from flat_loop_append_all [OF secs] obtain ps where ps: "length ps = length items"
    "\<forall>i<length items. flat_entry (1 + i) ds dl (items ! i) = Inr (ps ! i)"
    "secs = append_all [] ps" by blast
  have e: "\<forall>i<length items. flat_entry (Suc i) ds dl (items ! i) = Inr (ps ! i)"
    using ps(2) by simp
  have "\<forall>i<length items. \<exists>d. items ! i = JDict d \<and> fst (ps ! i) = section_title_of ds d"
  proof (intro allI impI)
    fix i assume "i < length items"
    with e have "flat_entry (Suc i) ds dl (items ! i) = Inr (fst (ps ! i), snd (ps ! i))" by simp
    from flat_entry_Inr [OF this]
    show "\<exists>d. items ! i = JDict d \<and> fst (ps ! i) = section_title_of ds d" by blast
  qed
  with ps(1) e out ps(3) show ?thesis by (auto simp: append_all_empty)
qed

lemma example_aba_eval:
  "normalize_sentences example_aba ''Text'' ''en'' = Inr example_aba_out"
  by (simp add: example_aba_def example_aba_out_def normalize_sentences_def
      entry_translations_def section_title_of_def get_or_def section_dict_def)

lemma example_falsy_section_eval:
  "normalize_data (JList example_falsy_section) ''Text'' ''en'' = Inr example_falsy_section_out"
  by (simp add: example_falsy_section_def example_falsy_section_out_def normalize_sentences_def
      entry_translations_def section_title_of_def get_or_def section_dict_def)

text \<open>
  C7. In flat-list normalization, sections are grouped by exact equality of the resolved
  section title, a string: when the list is accepted, entry \<open>i + 1\<close> yields the pair
  \<open>ps ! i\<close> of its resolved title and its sentence, and the Document is
  \<open>grouped (\<lambda>title. title) ps\<close>: one Section per distinct title, in the order in which
  the titles are first met, each holding the sentences of all the entries with that very
  title, in the order of the input.
\<close>

theorem flat_sections_grouped_by_title:
  assumes "normalize_sentences items default_section default_lang = Inr out"
    and "\<forall>d. JDict d \<in> set items \<longrightarrow> (\<exists>s. section_title_of default_section d = JStr s)"
  shows "\<exists>ps. length ps = length items
      \<and> (\<forall>i<length items.
            flat_entry (Suc i) default_section default_lang (items ! i) = Inr (ps ! i))
      \<and> (\<forall>i<length items.
            \<exists>d. items ! i = JDict d \<and> fst (ps ! i) = section_title_of default_section d)
      \<and> out = map section_dict (grouped (\<lambda>title. title) ps)"
proof -
  from normalize_sentences_grouped [OF assms(1)] obtain ps where ps: "length ps = length items"
    "\<forall>i<length items. flat_entry (Suc i) default_section default_lang (items ! i) = Inr (ps ! i)"
    "\<forall>i<length items. \<exists>d. items ! i = JDict d \<and> fst (ps ! i) = section_title_of default_section d"
    "out = map section_dict (grouped key_of ps)" by blast
  have "set (map fst ps) \<subseteq> range JStr"
  proof
    fix t assume "t \<in> set (map fst ps)"
    then obtain i where i: "i < length ps" "t = fst (ps ! i)"
      by (auto simp: in_set_conv_nth)
    with ps(1) ps(3) obtain d where d: "items ! i = JDict d" "t = section_title_of default_section d"
      by auto
    from i(1) ps(1) d(1) have "JDict d \<in> set items" by (metis nth_mem)
    with assms(2) d(2) show "t \<in> range JStr" by auto
  qed
  then have "inj_on key_of (set (map fst ps))"
    by (rule inj_on_subset [OF key_of_JStr_inj])
  then have "grouped key_of ps = grouped (\<lambda>title. title) ps" by (rule grouped_inj)
  with ps show ?thesis by auto
qed

text \<open>
  The theorem at three entries with the sections \<^verbatim>\<open>A\<close>, \<^verbatim>\<open>B\<close>, \<^verbatim>\<open>A\<close>: two Sections,
  \<^verbatim>\<open>A\<close> with the first and the third sentence, then \<^verbatim>\<open>B\<close>.
\<close>

theorem flat_sections_grouped_by_title_witness:
  "normalize_sentences example_aba ''Text'' ''en'' = Inr example_aba_out
   \<and> (\<exists>ps. length ps = 3 \<and> example_aba_out = map section_dict (grouped (\<lambda>title. title) ps))"
proof -
  have h: "\<forall>d. JDict d \<in> set example_aba \<longrightarrow> (\<exists>s. section_title_of ''Text'' d = JStr s)"
    by (auto simp: example_aba_def section_title_of_def get_or_def)
  have l: "length example_aba = 3" by (simp add: example_aba_def)
  from flat_sections_grouped_by_title [OF example_aba_eval h] l
  have "\<exists>ps. length ps = 3 \<and> example_aba_out = map section_dict (grouped (\<lambda>title. title) ps)"
    by auto
  with example_aba_eval show ?thesis by (rule conjI)
qed

section \<open>The number of sections of a flat list\<close>

lemma length_first_by: "length (first_by key xs) = card (key ` set xs)"
proof (induction key xs rule: first_by.induct)
  case (1 key)
  then show ?case by simp
next
  case (2 key x xs)
  have "key ` set (x # xs) = insert (key x) (key ` set (filter (\<lambda>y. key y \<noteq> key x) xs))"
    by auto
  moreover have "key x \<notin> key ` set (filter (\<lambda>y. key y \<noteq> key x) xs)" by auto
  ultimately have "card (key ` set (x # xs))
      = Suc (card (key ` set (filter (\<lambda>y. key y \<noteq> key x) xs)))"
    by (simp add: card_insert_if del: set_filter)
  with 2 show ?case by simp
qed

lemma length_grouped: "length (grouped key ps) = card ((\<lambda>p. key (fst p)) ` set ps)"
  by (simp add: grouped_def length_first_by image_image)

lemma grouped_single:
  assumes "ps \<noteq> []" and "\<forall>p\<in>set ps. fst p = t"
  shows "grouped key ps = [(t, map snd ps)]"
proof -
  from assms obtain s ps' where ps: "ps = (t, s) # ps'" by (cases ps) auto
  have "filter (\<lambda>y. key y \<noteq> key t) (map fst ps') = []"
    using assms(2) ps by (auto simp: filter_empty_conv)
  moreover have "filter (\<lambda>p. key (fst p) = key t) ps = ps"
    using assms(2) by (auto simp: filter_id_conv)
  ultimately show ?thesis by (simp add: grouped_def members_def ps)
qed

lemma section_count_by_key:
  assumes "normalize_sentences items default_section default_lang = Inr out"
  shows "\<exists>ps. length ps = length items
      \<and> (\<forall>i<length items.
            flat_entry (Suc i) default_section default_lang (items ! i) = Inr (ps ! i))
      \<and> (\<forall>i<length items.
            \<exists>d. items ! i = JDict d \<and> fst (ps ! i) = section_title_of default_section d)
      \<and> length out = card ((\<lambda>p. key_of (fst p)) ` set ps)
      \<and> (distinct (map (\<lambda>p. key_of (fst p)) ps) \<longrightarrow> length out = length items)
      \<and> (items \<noteq> [] \<and> (\<forall>d. JDict d \<in> set items \<longrightarrow> map_of d ''section'' = None) \<longrightarrow>
           (\<exists>sentences. out = [section_dict (JStr default_section, sentences)]
              \<and> length sentences = length items))"
proof -
  from normalize_sentences_grouped [OF assms] obtain ps where ps: "length ps = length items"
    "\<forall>i<length items. \<exists>d. items ! i = JDict d \<and> fst (ps ! i) = section_title_of default_section d"
    "out = map section_dict (grouped key_of ps)"
    and fe: "\<forall>i<length items.
       flat_entry (Suc i) default_section default_lang (items ! i) = Inr (ps ! i)" by blast
  have n: "length out = card ((\<lambda>p. key_of (fst p)) ` set ps)"
    by (simp add: ps(3) length_grouped)
  have dist: "length out = length items" if "distinct (map (\<lambda>p. key_of (fst p)) ps)"
    using distinct_card [OF that] ps(1) n by simp
  have one: "\<exists>sentences. out = [section_dict (JStr default_section, sentences)]
       \<and> length sentences = length items"
    if ne: "items \<noteq> []" and ab: "\<forall>d. JDict d \<in> set items \<longrightarrow> map_of d ''section'' = None"
  proof -
    have "\<forall>p\<in>set ps. fst p = JStr default_section"
    proof
      fix p assume "p \<in> set ps"
      then obtain i where i: "i < length ps" "p = ps ! i" by (auto simp: in_set_conv_nth)
      with ps(1) ps(2) obtain d where d: "items ! i = JDict d"
        "fst p = section_title_of default_section d" by auto
      from i(1) ps(1) d(1) have "JDict d \<in> set items" by (metis nth_mem)
      with ab have "map_of d ''section'' = None" by blast
      with d(2) show "fst p = JStr default_section"
        by (simp add: section_title_of_def get_or_def)
    qed
    moreover from ne ps(1) have "ps \<noteq> []" by auto
    ultimately have "grouped key_of ps = [(JStr default_section, map snd ps)]"
      by (intro grouped_single) auto
    with ps(1) ps(3) show ?thesis
      by (intro exI [of _ "map snd ps"]) simp
  qed
  show ?thesis
  proof (intro exI [of _ ps] conjI impI)
    show "length ps = length items" by (rule ps(1))
    show "\<forall>i<length items.
        flat_entry (Suc i) default_section default_lang (items ! i) = Inr (ps ! i)" by (rule fe)
    show "\<forall>i<length items.
        \<exists>d. items ! i = JDict d \<and> fst (ps ! i) = section_title_of default_section d"
      by (rule ps(2))
    show "length out = card ((\<lambda>p. key_of (fst p)) ` set ps)" by (rule n)
    show "length out = length items" if "distinct (map (\<lambda>p. key_of (fst p)) ps)"
      using that by (rule dist)
    show "\<exists>sentences. out = [section_dict (JStr default_section, sentences)]
       \<and> length sentences = length items"
      if "items \<noteq> [] \<and> (\<forall>d. JDict d \<in> set items \<longrightarrow> map_of d ''section'' = None)"
      using that one by simp
  qed
qed

text \<open>
  Titles that are not strings are compared as dictionary keys: the sections \<^verbatim>\<open>true\<close> and
  \<^verbatim>\<open>1\<close> are one section, titled by the first.
\<close>

lemma example_true_one_eval:
  "normalize_sentences example_true_one ''Text'' ''en''
     = Inr [JDict [(''sectionTitle'', JBool True),
                   (''sentences'', JList
                      [JDict [(''original'', JStr ''one''), (''translations'', JDict []),
                              (''root'', JBool False)],
                       JDict [(''original'', JStr ''two''), (''translations'', JDict []),
                              (''root'', JBool False)]])]]"
  by (simp add: example_true_one_def normalize_sentences_def
      entry_translations_def section_title_of_def get_or_def section_dict_def)

lemma string_titles:
  assumes "length ps = length items"
    and "\<forall>i<length items. \<exists>d. items ! i = JDict d \<and> fst (ps ! i) = section_title_of ds d"
    and "\<forall>d. JDict d \<in> set items \<longrightarrow> (\<exists>s. section_title_of ds d = JStr s)"
  shows "inj_on key_of (fst ` set ps)"
proof -
  have "fst ` set ps \<subseteq> range JStr"
  proof
    fix t assume "t \<in> fst ` set ps"
    then obtain i where i: "i < length ps" "t = fst (ps ! i)"
      by (auto simp: in_set_conv_nth)
    with assms(1) assms(2) obtain d where d: "items ! i = JDict d" "t = section_title_of ds d"
      by auto
    from i(1) assms(1) d(1) have "JDict d \<in> set items" by (metis nth_mem)
    with assms(3) d(2) show "t \<in> range JStr" by auto
  qed
  then show ?thesis by (rule inj_on_subset [OF key_of_JStr_inj])
qed

text \<open>
  C6, as amended. For every flat list that is accepted, the number of sections of the
  Document is the number of distinct resolved section titles, counted as dictionary keys
  (the resolved title is the \<^verbatim>\<open>section\<close> of the entry when it is present and truthy, the
  default section title otherwise; \<^verbatim>\<open>true\<close> and \<^verbatim>\<open>1\<close> are one key), and it is the number
  of entries when these keys are pairwise distinct. When every resolved title is a string,
  it is the number of different titles, and the number of entries when the titles are
  pairwise different. When \<^verbatim>\<open>section\<close> is absent on all entries of a non-empty list, the
  Document is exactly one section, named by the default section title, with all the
  sentences.
\<close>

theorem flat_section_count:
  assumes "normalize_sentences items default_section default_lang = Inr out"
  shows "\<exists>ps. length ps = length items
      \<and> (\<forall>i<length items.
            flat_entry (Suc i) default_section default_lang (items ! i) = Inr (ps ! i))
      \<and> (\<forall>i<length items.
            \<exists>d. items ! i = JDict d \<and> fst (ps ! i) = section_title_of default_section d)
      \<and> length out = card ((\<lambda>p. key_of (fst p)) ` set ps)
      \<and> (distinct (map (\<lambda>p. key_of (fst p)) ps) \<longrightarrow> length out = length items)
      \<and> ((\<forall>d. JDict d \<in> set items \<longrightarrow> (\<exists>s. section_title_of default_section d = JStr s)) \<longrightarrow>
           length out = card (fst ` set ps)
           \<and> (distinct (map fst ps) \<longrightarrow> length out = length items))
      \<and> (items \<noteq> [] \<and> (\<forall>d. JDict d \<in> set items \<longrightarrow> map_of d ''section'' = None) \<longrightarrow>
           (\<exists>sentences. out = [section_dict (JStr default_section, sentences)]
              \<and> length sentences = length items))"
proof -
  from section_count_by_key [OF assms] obtain ps where ps: "length ps = length items"
    "\<forall>i<length items. flat_entry (Suc i) default_section default_lang (items ! i) = Inr (ps ! i)"
    "\<forall>i<length items. \<exists>d. items ! i = JDict d \<and> fst (ps ! i) = section_title_of default_section d"
    "length out = card ((\<lambda>p. key_of (fst p)) ` set ps)"
    "distinct (map (\<lambda>p. key_of (fst p)) ps) \<longrightarrow> length out = length items"
    "items \<noteq> [] \<and> (\<forall>d. JDict d \<in> set items \<longrightarrow> map_of d ''section'' = None) \<longrightarrow>
           (\<exists>sentences. out = [section_dict (JStr default_section, sentences)]
              \<and> length sentences = length items)"
    by (elim exE conjE)
  have str: "length out = card (fst ` set ps)
           \<and> (distinct (map fst ps) \<longrightarrow> length out = length items)"
    if h: "\<forall>d. JDict d \<in> set items \<longrightarrow> (\<exists>s. section_title_of default_section d = JStr s)"
  proof -
    from string_titles [OF ps(1) ps(3) h] have inj: "inj_on key_of (fst ` set ps)" .
    have "(\<lambda>p. key_of (fst p)) ` set ps = key_of ` fst ` set ps" by (simp add: image_image)
    with inj ps(4) have c: "length out = card (fst ` set ps)" by (simp add: card_image)
    have "length out = length items" if "distinct (map fst ps)"
      using distinct_card [OF that] c ps(1) by simp
    with c show ?thesis by simp
  qed
  show ?thesis
  proof (intro exI [of _ ps] conjI)
    show "length ps = length items" by (rule ps(1))
    show "\<forall>i<length items.
        flat_entry (Suc i) default_section default_lang (items ! i) = Inr (ps ! i)"
      by (rule ps(2))
    show "\<forall>i<length items.
        \<exists>d. items ! i = JDict d \<and> fst (ps ! i) = section_title_of default_section d"
      by (rule ps(3))
    show "length out = card ((\<lambda>p. key_of (fst p)) ` set ps)" by (rule ps(4))
    show "distinct (map (\<lambda>p. key_of (fst p)) ps) \<longrightarrow> length out = length items" by (rule ps(5))
    show "(\<forall>d. JDict d \<in> set items \<longrightarrow> (\<exists>s. section_title_of default_section d = JStr s)) \<longrightarrow>
           length out = card (fst ` set ps)
           \<and> (distinct (map fst ps) \<longrightarrow> length out = length items)"
      using str by (intro impI)
    show "items \<noteq> [] \<and> (\<forall>d. JDict d \<in> set items \<longrightarrow> map_of d ''section'' = None) \<longrightarrow>
           (\<exists>sentences. out = [section_dict (JStr default_section, sentences)]
              \<and> length sentences = length items)"
      by (rule ps(6))
  qed
qed

text \<open>
  The claim as written counts the distinct \<^verbatim>\<open>section\<close> values: the two entries below have
  the distinct values \<^verbatim>\<open>""\<close> and \<^verbatim>\<open>"Text"\<close>, and with the default section title \<^verbatim>\<open>"Text"\<close>
  both land in the one section \<^verbatim>\<open>Text\<close>.
\<close>

theorem flat_section_count_counterexample:
  "distinct (map section_field example_falsy_section)
   \<and> card (set (map section_field example_falsy_section)) = 2
   \<and> normalize_data (JList example_falsy_section) ''Text'' ''en'' = Inr example_falsy_section_out
   \<and> length example_falsy_section_out = 1"
  using example_falsy_section_eval
  by (simp add: example_falsy_section_def example_falsy_section_out_def)

lemma example_ab_eval:
  "normalize_sentences (take 2 example_aba) ''Text'' ''en''
     = Inr [JDict [(''sectionTitle'', JStr ''A''),
                   (''sentences'', JList
                      [JDict [(''original'', JStr ''one''), (''translations'', JDict []),
                              (''root'', JBool False)]])],
            JDict [(''sectionTitle'', JStr ''B''),
                   (''sentences'', JList
                      [JDict [(''original'', JStr ''two''), (''translations'', JDict []),
                              (''root'', JBool False)]])]]"
  by (simp add: example_aba_def normalize_sentences_def
      entry_translations_def section_title_of_def get_or_def section_dict_def)

lemma example_no_section_eval:
  "normalize_sentences example_no_section ''Text'' ''en'' = Inr example_no_section_out"
  by (simp add: example_no_section_def example_no_section_out_def normalize_sentences_def
      entry_translations_def section_title_of_def get_or_def section_dict_def)

text \<open>
  The theorem at two entries without \<^verbatim>\<open>section\<close>: one section, and it is named by the
  default section title; and at two entries with the sections \<^verbatim>\<open>A\<close> and \<^verbatim>\<open>B\<close>: as many
  sections as entries, by their keys and by their titles.
\<close>

theorem flat_section_count_witness:
  "normalize_sentences example_no_section ''Text'' ''en'' = Inr example_no_section_out
   \<and> (\<exists>sentences. example_no_section_out = [section_dict (JStr ''Text'', sentences)]
         \<and> length sentences = 2)
   \<and> (\<exists>out. normalize_sentences (take 2 example_aba) ''Text'' ''en'' = Inr out
         \<and> length out = length (take 2 example_aba))
   \<and> (\<exists>out (ps :: (json \<times> json) list). normalize_sentences (take 2 example_aba) ''Text'' ''en'' = Inr out
         \<and> map fst ps = [JStr ''A'', JStr ''B'']
         \<and> length out = card (fst ` set ps) \<and> length out = 2)"
proof -
  have ne: "example_no_section \<noteq> []
      \<and> (\<forall>d. JDict d \<in> set example_no_section \<longrightarrow> map_of d ''section'' = None)"
    by (auto simp: example_no_section_def)
  have l: "length example_no_section = 2" by (simp add: example_no_section_def)
  from flat_section_count [OF example_no_section_eval] ne l
  have one: "\<exists>sentences. example_no_section_out = [section_dict (JStr ''Text'', sentences)]
         \<and> length sentences = 2"
    by auto
  have strs: "\<forall>d. JDict d \<in> set (take 2 example_aba) \<longrightarrow>
      (\<exists>s. section_title_of ''Text'' d = JStr s)"
    by (auto simp: example_aba_def section_title_of_def get_or_def)
  define out where
    "out = [JDict [(''sectionTitle'', JStr ''A''),
                   (''sentences'', JList
                      [JDict [(''original'', JStr ''one''), (''translations'', JDict []),
                              (''root'', JBool False)]])],
            JDict [(''sectionTitle'', JStr ''B''),
                   (''sentences'', JList
                      [JDict [(''original'', JStr ''two''), (''translations'', JDict []),
                              (''root'', JBool False)]])]]"
  have out: "normalize_sentences (take 2 example_aba) ''Text'' ''en'' = Inr out"
    unfolding out_def by (rule example_ab_eval)
  from flat_section_count [OF out] obtain ps :: "(json \<times> json) list"
    where ps: "length ps = length (take 2 example_aba)"
      "\<forall>i<length (take 2 example_aba).
          \<exists>d. take 2 example_aba ! i = JDict d \<and> fst (ps ! i) = section_title_of ''Text'' d"
      "distinct (map (\<lambda>p. key_of (fst p)) ps) \<longrightarrow> length out = length (take 2 example_aba)"
      "(\<forall>d. JDict d \<in> set (take 2 example_aba) \<longrightarrow>
          (\<exists>s. section_title_of ''Text'' d = JStr s)) \<longrightarrow>
         length out = card (fst ` set ps)
         \<and> (distinct (map fst ps) \<longrightarrow> length out = length (take 2 example_aba))"
    by (elim exE conjE)
  have len: "length ps = 2" using ps(1) by (simp add: example_aba_def)
  have l2: "length (take 2 example_aba) = 2" by (simp add: example_aba_def)
  have "0 < length (take 2 example_aba)" "1 < length (take 2 example_aba)"
    by (simp_all add: example_aba_def)
  with ps(2) have t: "fst (ps ! 0) = JStr ''A''" "fst (ps ! 1) = JStr ''B''"
    by (auto simp: example_aba_def section_title_of_def get_or_def)
  from len obtain p q where pq: "ps = [p, q]"
    by (cases ps; cases "tl ps") auto
  with t have titles: "map fst ps = [JStr ''A'', JStr ''B'']" by simp
  from pq t have "distinct (map (\<lambda>p. key_of (fst p)) ps)" by simp
  with ps(3) out have two: "\<exists>out. normalize_sentences (take 2 example_aba) ''Text'' ''en'' = Inr out
         \<and> length out = length (take 2 example_aba)"
    by (intro exI [of _ out]) simp
  from titles have d: "distinct (map fst ps)" by simp
  from ps(4) strs
  have both: "length out = card (fst ` set ps)
      \<and> (distinct (map fst ps) \<longrightarrow> length out = length (take 2 example_aba))"
    by (rule mp)
  from both have c: "length out = card (fst ` set ps)" by (rule conjunct1)
  from both [THEN conjunct2] d have "length out = length (take 2 example_aba)" by (rule mp)
  with l2 have "length out = 2" by (simp only:)
  with out titles c
  have three: "\<exists>out (ps :: (json \<times> json) list). normalize_sentences (take 2 example_aba) ''Text'' ''en'' = Inr out
         \<and> map fst ps = [JStr ''A'', JStr ''B'']
         \<and> length out = card (fst ` set ps) \<and> length out = 2"
    by (intro exI [of _ out] exI [of _ ps] conjI)
  from example_no_section_eval one two three show ?thesis by (intro conjI)
qed

section \<open>The loops over the sectioned shape\<close>

lemma sentences_loop_dicts:
  "sentences_loop (map JDict sds) acc = Inr (acc @ map sectioned_sentence sds)"
  by (induction sds arbitrary: acc) simp_all

lemma sentences_loop_Inr:
  "sentences_loop its acc = Inr r \<Longrightarrow> \<exists>sds. its = map JDict sds"
proof (induction its acc rule: sentences_loop.induct)
  case (1 sentences)
  then show ?case by simp
next
  case (2 sentence rest sentences)
  then obtain sds where "rest = map JDict sds" by auto
  then have "JDict sentence # rest = map JDict (sentence # sds)" by simp
  then show ?case by (rule exI)
qed simp_all

lemma sentences_loop_Inl:
  "sentences_loop its acc = Inl e \<Longrightarrow>
   \<exists>v\<in>set its. (\<forall>d. v \<noteq> JDict d) \<and> e = ValueError [Lit ''Sentence must be an object: '', ReprOf v]"
  by (induction its acc rule: sentences_loop.induct) auto

lemma sections_loop_step:
  assumes "iterate (get_or d ''sentences'' (JList [])) = Inr (map JDict sds)"
  shows "sections_loop ds (JDict d # rest) acc
       = sections_loop ds rest
           (acc @ [section_dict (get_or d ''sectionTitle'' (JStr ds), map sectioned_sentence sds)])"
  using assms by (simp add: sentences_loop_dicts)

lemma sections_loop_Inr:
  "sections_loop ds secs acc = Inr r \<Longrightarrow>
   \<exists>res. r = acc @ res \<and> list_all2 (sectioned_rel ds) secs res"
proof (induction secs arbitrary: acc r)
  case Nil
  then show ?case by simp
next
  case (Cons sec rest)
  from Cons.prems obtain d where sec: "sec = JDict d" by (cases sec) simp_all
  from Cons.prems obtain its where its: "iterate (get_or d ''sentences'' (JList [])) = Inr its"
    by (auto simp: sec Let_def split: sum.splits)
  with Cons.prems obtain ss where ss: "sentences_loop its [] = Inr ss"
    by (auto simp: sec Let_def split: sum.splits)
  from sentences_loop_Inr [OF ss] obtain sds where sds: "its = map JDict sds" ..
  define res1 where
    "res1 = section_dict (get_or d ''sectionTitle'' (JStr ds), map sectioned_sentence sds)"
  have it: "iterate (get_or d ''sentences'' (JList [])) = Inr (map JDict sds)"
    using its sds by simp
  from Cons.prems have r: "sections_loop ds rest (acc @ [res1]) = Inr r"
    unfolding sec res1_def by (simp only: sections_loop_step [OF it])
  from Cons.IH [OF r] obtain res where res: "r = (acc @ [res1]) @ res"
    "list_all2 (sectioned_rel ds) rest res" by auto
  have "sectioned_rel ds sec res1"
    unfolding sectioned_rel_def sec res1_def using it by (intro exI [of _ d] exI [of _ sds]) simp
  with res show ?case
    by (intro exI [of _ "res1 # res"]) simp
qed

lemma list_all2_list_all:
  "list_all2 P xs ys \<Longrightarrow> list_all Q xs \<Longrightarrow> list_all2 (\<lambda>x y. Q x \<and> P x y) xs ys"
  by (induction rule: list_all2_induct) simp_all

lemma normalize_data_sectioned:
  "list_all is_section_shape secs \<Longrightarrow>
   normalize_data (JList secs) ds dl = sections_loop ds secs []"
  by simp

lemma normalize_data_flat:
  "\<not> list_all is_section_shape items \<Longrightarrow>
   normalize_data (JList items) ds dl = normalize_sentences items ds dl"
  by simp

lemma sectioned_rel_title:
  assumes "is_section_shape sec \<and> sectioned_rel ds sec res"
  shows "\<exists>d title. sec = JDict d \<and> map_of d ''sectionTitle'' = Some title
           \<and> field ''sectionTitle'' res = Some title"
proof -
  from assms obtain d sds where d: "sec = JDict d"
    "res = section_dict (get_or d ''sectionTitle'' (JStr ds), map sectioned_sentence sds)"
    unfolding sectioned_rel_def by auto
  from assms d(1) obtain title where t: "map_of d ''sectionTitle'' = Some title" by auto
  with d(2) have "field ''sectionTitle'' res = Some title"
    by (simp add: section_dict_def get_or_def)
  with d(1) t show ?thesis by simp
qed

text \<open>
  C5, as amended. In the sectioned shape the title of every output section is the value of
  the \<^verbatim>\<open>sectionTitle\<close> key of the input section, unchanged, whatever it is (the empty
  string and null included). The default section title would stand in for an absent key
  only, and a list passes the test of the sectioned shape only if every element has the
  key.
\<close>

theorem sectioned_title_unchanged:
  assumes "list_all is_section_shape secs"
    and "normalize_data (JList secs) default_section default_lang = Inr out"
  shows "list_all2 (\<lambda>sec res. \<exists>d title. sec = JDict d \<and> map_of d ''sectionTitle'' = Some title
                       \<and> field ''sectionTitle'' res = Some title) secs out"
proof -
  from assms have "sections_loop default_section secs [] = Inr out" by simp
  from sections_loop_Inr [OF this]
  have "list_all2 (sectioned_rel default_section) secs out" by simp
  from list_all2_list_all [OF this assms(1)]
  show ?thesis by (rule list_all2_mono) (rule sectioned_rel_title)
qed

text \<open>
  The claim as written has the default section title replace a falsy \<^verbatim>\<open>sectionTitle\<close>:
  with the default \<^verbatim>\<open>"Text"\<close>, the sections titled \<^verbatim>\<open>""\<close> and \<^verbatim>\<open>null\<close> keep their titles.
\<close>

theorem sectioned_title_default_counterexample:
  "normalize_data (JList example_empty_titles) ''Text'' ''en'' = Inr example_empty_titles
   \<and> map (field ''sectionTitle'') example_empty_titles = [Some (JStr ''''), Some JNull]
   \<and> \<not> truthy (JStr '''') \<and> \<not> truthy JNull
   \<and> JStr '''' \<noteq> JStr ''Text'' \<and> JNull \<noteq> JStr ''Text''"
  by (simp add: example_empty_titles_def get_or_def section_dict_def)

text \<open>
  The theorem at the same two sections.
\<close>

theorem sectioned_title_unchanged_witness:
  "list_all is_section_shape example_empty_titles
   \<and> normalize_data (JList example_empty_titles) ''Text'' ''en'' = Inr example_empty_titles
   \<and> list_all2 (\<lambda>sec res. \<exists>d title. sec = JDict d \<and> map_of d ''sectionTitle'' = Some title
                       \<and> field ''sectionTitle'' res = Some title)
        example_empty_titles example_empty_titles"
proof -
  have a: "list_all is_section_shape example_empty_titles"
    by (simp add: example_empty_titles_def)
  have b: "normalize_data (JList example_empty_titles) ''Text'' ''en'' = Inr example_empty_titles"
    by (simp add: example_empty_titles_def get_or_def section_dict_def)
  from a b sectioned_title_unchanged [OF a b] show ?thesis by (intro conjI)
qed

section \<open>Exceptions that are not validation errors\<close>

text \<open>
  C10. The claim is that \<open>normalize_data\<close> either returns a Document or raises a
  \<^verbatim>\<open>ValueError\<close>. On a section of the sectioned shape whose \<^verbatim>\<open>sentences\<close> is null the loop
  of line 78 iterates \<^verbatim>\<open>None\<close>, which raises a \<^verbatim>\<open>TypeError\<close>; and on a flat entry whose
  \<^verbatim>\<open>section\<close> is a non-empty list, line 55 uses the list as a dictionary key, which raises
  a \<^verbatim>\<open>TypeError\<close> as well.
\<close>

theorem sentences_null_type_error:
  "normalize_data (JList [JDict [(''sectionTitle'', JStr ''A''), (''sentences'', JNull)]])
      default_section default_lang = Inl (TypeError_not_iterable JNull)
   \<and> normalize_data (JList [JDict [(''original'', JStr ''a''), (''section'', JList [JStr ''x''])]])
      default_section default_lang = Inl (TypeError_unhashable (JList [JStr ''x'']))"
  by (simp add: get_or_def normalize_sentences_def entry_translations_def section_title_of_def)

section \<open>The round trip\<close>

lemma filled_sentence_eq: "filled_sentence (JDict s) = sectioned_sentence s"
  by (simp add: sectioned_sentence_def get_or_def split: option.splits)

lemma sections_loop_filled:
  assumes "\<forall>sec\<in>set secs. \<exists>d title ss. sec = JDict d
      \<and> map_of d ''sectionTitle'' = Some title
      \<and> map_of d ''sentences'' = Some (JList (map JDict ss))"
  shows "sections_loop ds secs acc = Inr (acc @ map filled_section secs)"
  using assms
proof (induction secs arbitrary: acc)
  case Nil
  then show ?case by simp
next
  case (Cons sec rest)
  from Cons.prems obtain d title ss where d: "sec = JDict d"
    "map_of d ''sectionTitle'' = Some title"
    "map_of d ''sentences'' = Some (JList (map JDict ss))" by auto
  have it: "iterate (get_or d ''sentences'' (JList [])) = Inr (map JDict ss)"
    using d(3) by (simp add: get_or_def)
  have m: "map filled_sentence (map JDict ss) = map sectioned_sentence ss"
    by (simp add: filled_sentence_eq del: filled_sentence.simps)
  have f: "section_dict (get_or d ''sectionTitle'' (JStr ds), map sectioned_sentence ss)
      = filled_section sec"
    using d by (simp add: section_dict_def get_or_def filled_sentence_eq del: filled_sentence.simps)
  have "sections_loop ds (sec # rest) acc
      = sections_loop ds rest (acc @ [filled_section sec])"
    unfolding d(1) sections_loop_step [OF it] f [unfolded d(1)] ..
  also have "\<dots> = Inr ((acc @ [filled_section sec]) @ map filled_section rest)"
    using Cons.prems by (intro Cons.IH) simp
  finally show ?case by simp
qed

lemma normalize_data_filled:
  assumes "\<forall>sec\<in>set secs. \<exists>d title ss. sec = JDict d
      \<and> map_of d ''sectionTitle'' = Some title
      \<and> map_of d ''sentences'' = Some (JList (map JDict ss))"
  shows "normalize_data (JList secs) ds dl = Inr (map filled_section secs)"
proof -
  from assms have "list_all is_section_shape secs"
    by (auto simp: list_all_iff)
  then show ?thesis using sections_loop_filled [OF assms, of ds "[]"] by simp
qed

lemma canonical_sentence_fixed:
  "canonical_sentence s \<Longrightarrow> \<exists>d. s = JDict d \<and> sectioned_sentence d = s"
  by (auto simp: canonical_sentence_def sectioned_sentence_def get_or_def)

lemma canonical_sentences_fixed:
  "list_all canonical_sentence ss \<Longrightarrow> \<exists>sds. ss = map JDict sds \<and> map sectioned_sentence sds = ss"
proof (induction ss)
  case Nil
  then show ?case by simp
next
  case (Cons s ss)
  then obtain sds where sds: "ss = map JDict sds" "map sectioned_sentence sds = ss" by auto
  from Cons.prems canonical_sentence_fixed obtain d where d: "s = JDict d" "sectioned_sentence d = s"
    by auto
  from sds d have "s # ss = map JDict (d # sds) \<and> map sectioned_sentence (d # sds) = s # ss"
    by simp
  then show ?case by (rule exI)
qed

lemma sections_loop_canonical:
  "list_all canonical_section out \<Longrightarrow> sections_loop ds out acc = Inr (acc @ out)"
proof (induction out arbitrary: acc)
  case Nil
  then show ?case by simp
next
  case (Cons sec rest)
  from Cons.prems obtain title ss where sec: "sec = section_dict (title, ss)"
    and ss: "list_all canonical_sentence ss"
    by (auto simp: canonical_section_def)
  from canonical_sentences_fixed [OF ss] obtain sds where sds: "ss = map JDict sds"
    "map sectioned_sentence sds = ss" by auto
  define d where "d = [(''sectionTitle'', title), (''sentences'', JList ss)]"
  have secd: "sec = JDict d" by (simp add: sec section_dict_def d_def)
  have it: "iterate (get_or d ''sentences'' (JList [])) = Inr (map JDict sds)"
    by (simp add: d_def get_or_def sds(1))
  have t: "section_dict (get_or d ''sectionTitle'' (JStr ds), map sectioned_sentence sds) = sec"
    by (simp add: sds(2) sec) (simp add: d_def get_or_def)
  have "sections_loop ds (sec # rest) acc = sections_loop ds rest (acc @ [sec])"
    unfolding secd sections_loop_step [OF it] t [unfolded secd] ..
  also have "\<dots> = Inr ((acc @ [sec]) @ rest)"
    using Cons.prems by (intro Cons.IH) simp
  finally show ?case by simp
qed

lemma canonical_section_shape: "canonical_section sec \<Longrightarrow> is_section_shape sec"
  by (auto simp: canonical_section_def section_dict_def)

lemma normalize_data_canonical_fixed:
  assumes "list_all canonical_section out"
  shows "normalize_data (JList out) ds dl = Inr out"
proof -
  from assms have "list_all is_section_shape out"
    by (auto simp: list_all_iff canonical_section_shape)
  then show ?thesis using sections_loop_canonical [OF assms, of ds "[]"] by simp
qed

lemma sectioned_sentence_canonical: "canonical_sentence (sectioned_sentence d)"
  by (simp add: canonical_sentence_def sectioned_sentence_def)

lemma sectioned_rel_canonical:
  assumes "sectioned_rel ds sec res"
  shows "canonical_section res"
proof -
  from assms obtain d sds where
    res: "res = section_dict (get_or d ''sectionTitle'' (JStr ds), map sectioned_sentence sds)"
    unfolding sectioned_rel_def by auto
  have "list_all canonical_sentence (map sectioned_sentence sds)"
    by (simp add: list_all_iff sectioned_sentence_canonical)
  with res show ?thesis unfolding canonical_section_def by (intro exI conjI)
qed

lemma list_all2_right: "list_all2 P xs ys \<Longrightarrow> (\<And>x y. P x y \<Longrightarrow> Q y) \<Longrightarrow> list_all Q ys"
  by (induction rule: list_all2_induct) auto

lemma sections_loop_canonical_out:
  assumes "sections_loop ds secs [] = Inr out"
  shows "list_all canonical_section out"
proof -
  from sections_loop_Inr [OF assms] have "list_all2 (sectioned_rel ds) secs out" by simp
  then show ?thesis by (rule list_all2_right) (rule sectioned_rel_canonical)
qed

lemma flat_entry_canonical:
  "flat_entry index ds dl item = Inr p \<Longrightarrow> canonical_sentence (snd p)"
  using flat_entry_Inr [of index ds dl item "fst p" "snd p"]
  by (auto simp: canonical_sentence_def)

lemma set_members: "set (members key t ps) \<subseteq> snd ` set ps"
  by (auto simp: members_def)

lemma normalize_sentences_canonical:
  assumes "normalize_sentences items ds dl = Inr out"
  shows "list_all canonical_section out"
proof -
  from normalize_sentences_grouped [OF assms] obtain ps where ps: "length ps = length items"
    "\<forall>i<length items. flat_entry (Suc i) ds dl (items ! i) = Inr (ps ! i)"
    "out = map section_dict (grouped key_of ps)" by auto
  have c: "canonical_sentence (snd p)" if "p \<in> set ps" for p
  proof -
    from that obtain i where "i < length ps" "p = ps ! i" by (auto simp: in_set_conv_nth)
    with ps(1) ps(2) have "flat_entry (Suc i) ds dl (items ! i) = Inr p" by simp
    then show ?thesis by (rule flat_entry_canonical)
  qed
  have "canonical_section (section_dict g)" if "g \<in> set (grouped key_of ps)" for g
  proof -
    from that obtain t where g: "g = (t, members key_of t ps)" by (auto simp: grouped_def)
    have "list_all canonical_sentence (members key_of t ps)"
      using set_members [of key_of t ps] c by (auto simp: list_all_iff)
    then show ?thesis unfolding canonical_section_def g by auto
  qed
  then show ?thesis by (simp add: ps(3) list_all_iff)
qed

lemma normalize_data_canonical:
  "normalize_data x ds dl = Inr out \<Longrightarrow> list_all canonical_section out"
proof (induction x ds dl rule: normalize_data.induct)
  case (1 raw_data ds dl)
  then show ?case
    by (auto simp: sections_loop_canonical_out normalize_sentences_canonical split: if_splits)
next
  case (2 raw_data ds dl)
  then show ?case by (auto split: option.splits)
qed simp_all

lemma normalize_data_idempotent:
  "normalize_data x ds dl = Inr out \<Longrightarrow> normalize_data (JList out) ds' dl' = Inr out"
  by (rule normalize_data_canonical_fixed) (rule normalize_data_canonical)

text \<open>
  C8. Round trip. For a list in which every element is a mapping with the keys
  \<^verbatim>\<open>sectionTitle\<close> and \<^verbatim>\<open>sentences\<close>, the latter a list of mappings, normalization returns
  the sections with their titles and, sentence by sentence, the \<^verbatim>\<open>original\<close> value
  unchanged (the empty string when it is absent), \<^verbatim>\<open>translations\<close> unchanged (the empty
  mapping when absent) and \<^verbatim>\<open>root\<close> as a boolean (false when absent): the Document is
  \<open>map filled_section\<close> of the input. Consequently normalization is idempotent on its own
  output: whatever input produced a Document, normalizing that Document returns it,
  under any defaults.
\<close>

theorem sectioned_round_trip:
  "((\<forall>sec\<in>set secs. \<exists>d title ss. sec = JDict d
        \<and> map_of d ''sectionTitle'' = Some title
        \<and> map_of d ''sentences'' = Some (JList (map JDict ss))) \<longrightarrow>
      normalize_data (JList secs) default_section default_lang = Inr (map filled_section secs))
   \<and> (normalize_data raw_data default_section default_lang = Inr out \<longrightarrow>
      normalize_data (JList out) default_section' default_lang' = Inr out)"
  using normalize_data_filled [of secs default_section default_lang]
    normalize_data_idempotent [of raw_data default_section default_lang out
      default_section' default_lang']
  by (intro conjI impI)

lemma example_sectioned_filled: "map filled_section example_sectioned = example_sectioned_out"
  by (simp add: example_sectioned_def example_sectioned_out_def)

text \<open>
  The theorem at two sections, the first with a sentence without \<^verbatim>\<open>translations\<close> and one
  without \<^verbatim>\<open>original\<close>, and then at the Document it returns.
\<close>

theorem sectioned_round_trip_witness:
  "normalize_data (JList example_sectioned) ''Text'' ''en'' = Inr example_sectioned_out
   \<and> normalize_data (JList example_sectioned_out) ''Other'' ''fr'' = Inr example_sectioned_out"
proof -
  have "\<exists>ss. [JDict [(''original'', JStr ''salut''), (''root'', JInt 1)],
               JDict [(''translations'', JDict [(''en'', JStr ''bye'')])]] = map JDict ss"
    by (rule exI [of _ "[[(''original'', JStr ''salut''), (''root'', JInt 1)],
                         [(''translations'', JDict [(''en'', JStr ''bye'')])]]"]) simp
  moreover have "\<exists>ss. [] = map JDict ss" by simp
  ultimately have h: "\<forall>sec\<in>set example_sectioned. \<exists>d title ss. sec = JDict d
        \<and> map_of d ''sectionTitle'' = Some title
        \<and> map_of d ''sentences'' = Some (JList (map JDict ss))"
    by (simp add: example_sectioned_def)
  have a: "normalize_data (JList example_sectioned) ''Text'' ''en'' = Inr example_sectioned_out"
    using sectioned_round_trip [of example_sectioned "''Text''" "''en''"] h
    by (simp add: example_sectioned_filled)
  have "normalize_data (JList example_sectioned_out) ''Other'' ''fr'' = Inr example_sectioned_out"
    using sectioned_round_trip
      [of example_sectioned "''Text''" "''en''" "JList example_sectioned" example_sectioned_out
          "''Other''" "''fr''"] a
    by simp
  with a show ?thesis by (rule conjI)
qed

section \<open>Validation errors\<close>

lemma merge_translations_Inl:
  "merge_translations index v tr = Inl e \<Longrightarrow>
   e = ValueError [Lit '''translations' on entry '', Idx index,
                   Lit '' must be an object if provided.'']"
  by (cases "(index, v, tr)" rule: merge_translations.cases) simp_all

lemma merge_translation_Inl:
  "merge_translation index dl v tr = Inl e \<Longrightarrow>
   e = ValueError [Lit '''translation' on entry '', Idx index,
                   Lit '' must be a string or object.'']"
  by (cases "(index, dl, v, tr)" rule: merge_translation.cases) simp_all

lemma entry_translations_Inl:
  "entry_translations index dl d = Inl e \<Longrightarrow>
   e = ValueError [Lit '''translations' on entry '', Idx index,
                   Lit '' must be an object if provided.'']
   \<or> e = ValueError [Lit '''translation' on entry '', Idx index,
                     Lit '' must be a string or object.'']"
  by (auto simp: entry_translations_def split: sum.splits
      dest: merge_translations_Inl merge_translation_Inl)

lemma flat_entry_not_dict:
  "\<forall>d. item \<noteq> JDict d \<Longrightarrow>
   flat_entry index ds dl item
     = Inl (ValueError [Lit ''Entry '', Idx index, Lit '' is not an object: '', ReprOf item])"
  by (cases item) simp_all

lemma flat_entry_missing:
  "map_of d ''original'' = None \<Longrightarrow>
   flat_entry index ds dl (JDict d)
     = Inl (ValueError [Lit ''Entry '', Idx index, Lit '' is missing 'original': '',
                        ReprOf (JDict d)])"
  by simp

lemma flat_entry_bad_field:
  assumes "flat_entry index ds dl (JDict d) = Inl (ValueError ps)"
    and "map_of d ''original'' \<noteq> None"
  shows "ps = [Lit '''translations' on entry '', Idx index, Lit '' must be an object if provided.'']
       \<or> ps = [Lit '''translation' on entry '', Idx index, Lit '' must be a string or object.'']"
proof -
  from assms obtain e where e: "entry_translations index dl d = Inl e" "e = ValueError ps"
    by (auto simp: Let_def split: sum.splits option.splits)
  from entry_translations_Inl [OF e(1)] e(2) show ?thesis by simp
qed

lemma flat_entry_Inl_index:
  assumes "flat_entry index ds dl item = Inl (ValueError ps)"
  shows "Idx index \<in> set ps"
proof (cases "\<exists>d. item = JDict d")
  case False
  then have "\<forall>d. item \<noteq> JDict d" by simp
  from flat_entry_not_dict [OF this, of index ds dl] assms show ?thesis by simp
next
  case True
  then obtain d where d: "item = JDict d" ..
  show ?thesis
  proof (cases "map_of d ''original''")
    case None
    from flat_entry_missing [OF this, of index ds dl] assms d show ?thesis by auto
  next
    case (Some v)
    with assms d flat_entry_bad_field [of index ds dl d ps] show ?thesis by auto
  qed
qed

lemma flat_loop_Inl:
  "flat_loop index ds dl items secs = Inl e \<Longrightarrow>
   \<exists>i<length items. flat_entry (index + i) ds dl (items ! i) = Inl e
      \<and> (\<forall>j<i. \<exists>p. flat_entry (index + j) ds dl (items ! j) = Inr p)"
proof (induction items arbitrary: index secs)
  case Nil
  then show ?case by simp
next
  case (Cons item items)
  show ?case
  proof (cases "flat_entry index ds dl item")
    case (Inl e')
    with Cons.prems have "e' = e" by simp
    with Inl show ?thesis by (intro exI [of _ 0]) simp
  next
    case (Inr p)
    with Cons.prems have "flat_loop (Suc index) ds dl items
        (sections_append secs (fst p) (snd p)) = Inl e"
      by (simp add: case_prod_unfold)
    from Cons.IH [OF this] obtain i where i: "i < length items"
      "flat_entry (Suc index + i) ds dl (items ! i) = Inl e"
      "\<forall>j<i. \<exists>p. flat_entry (Suc index + j) ds dl (items ! j) = Inr p" by blast
    have "\<forall>j<Suc i. \<exists>p. flat_entry (index + j) ds dl ((item # items) ! j) = Inr p"
    proof (intro allI impI)
      fix j assume "j < Suc i"
      then show "\<exists>p. flat_entry (index + j) ds dl ((item # items) ! j) = Inr p"
        using Inr i(3) by (cases j) auto
    qed
    with i(1) i(2) show ?thesis by (intro exI [of _ "Suc i"]) simp
  qed
qed

lemma flat_loop_fails:
  "i < length items \<Longrightarrow> flat_entry (index + i) ds dl (items ! i) = Inl e \<Longrightarrow>
   \<forall>j<i. \<exists>p. flat_entry (index + j) ds dl (items ! j) = Inr p \<Longrightarrow>
   flat_loop index ds dl items secs = Inl e"
proof (induction items arbitrary: index secs i)
  case Nil
  then show ?case by simp
next
  case (Cons item items)
  show ?case
  proof (cases i)
    case 0
    with Cons.prems show ?thesis by simp
  next
    case (Suc k)
    from Cons.prems(3) Suc obtain p where p: "flat_entry index ds dl item = Inr p"
      by (auto dest: spec [of _ 0])
    have k: "k < length items" using Cons.prems(1) Suc by simp
    have e: "flat_entry (Suc index + k) ds dl (items ! k) = Inl e"
      using Cons.prems(2) Suc by simp
    have "\<forall>j<k. \<exists>p. flat_entry (Suc index + j) ds dl (items ! j) = Inr p"
    proof (intro allI impI)
      fix j assume "j < k"
      then have "Suc j < i" using Suc by simp
      with Cons.prems(3) show "\<exists>p. flat_entry (Suc index + j) ds dl (items ! j) = Inr p"
        by (auto dest!: spec [of _ "Suc j"])
    qed
    from Cons.IH [OF k e this] p show ?thesis by (simp add: case_prod_unfold)
  qed
qed

lemma sublist_message:
  "p \<in> set ps \<Longrightarrow> sublist (render_piece repr p) (message repr ps)"
proof -
  assume "p \<in> set ps"
  then obtain as bs where "ps = as @ p # bs" by (auto simp: in_set_conv_decomp)
  then have "message repr ps
      = message repr as @ render_piece repr p @ message repr bs"
    by (simp add: message_def)
  then show ?thesis unfolding sublist_def by blast
qed

lemma str_nat_3: "str_nat 3 = ''3''"
  by (simp add: str_nat.simps digit_char_def)

lemma iterate_Inl: "iterate v = Inl e \<Longrightarrow> e = TypeError_not_iterable v"
  by (cases v) auto

lemma sections_loop_Inl:
  "sections_loop ds secs acc = Inl (ValueError ps) \<Longrightarrow> list_all is_section_shape secs \<Longrightarrow>
   \<exists>sec\<in>set secs. bad_sentence_in ps sec"
proof (induction secs arbitrary: acc)
  case Nil
  then show ?case by simp
next
  case (Cons sec rest)
  from Cons.prems(2) obtain d where sec: "sec = JDict d" by (cases sec) simp_all
  from Cons.prems(2) have shape: "list_all is_section_shape rest" by simp
  show ?case
  proof (cases "iterate (get_or d ''sentences'' (JList []))")
    case (Inl e)
    then have "sections_loop ds (sec # rest) acc = Inl e" by (simp add: sec)
    with Cons.prems(1) have "e = ValueError ps" by simp
    with iterate_Inl [OF Inl] show ?thesis by simp
  next
    case it: (Inr its)
    show ?thesis
    proof (cases "sentences_loop its []")
      case (Inl e)
      with it have "sections_loop ds (sec # rest) acc = Inl e" by (simp add: sec)
      with Cons.prems(1) have e: "e = ValueError ps" by simp
      from sentences_loop_Inl [OF Inl] obtain v where v: "v \<in> set its" "\<forall>d'. v \<noteq> JDict d'"
        "e = ValueError [Lit ''Sentence must be an object: '', ReprOf v]"
        by (elim bexE conjE)
      from e v(3) have ps: "ps = [Lit ''Sentence must be an object: '', ReprOf v]" by simp
      have "bad_sentence_in ps sec"
        unfolding bad_sentence_in_def
        using sec it v(1) v(2) ps by (intro exI [of _ d] exI [of _ its] exI [of _ v] conjI)
      then show ?thesis by simp
    next
      case (Inr ss)
      with it have "sections_loop ds (sec # rest) acc
          = sections_loop ds rest
              (acc @ [section_dict (get_or d ''sectionTitle'' (JStr ds), ss)])"
        by (simp add: sec)
      with Cons.prems(1) have "sections_loop ds rest
          (acc @ [section_dict (get_or d ''sectionTitle'' (JStr ds), ss)]) = Inl (ValueError ps)"
        by simp
      from Cons.IH [OF this shape] obtain s where "s \<in> set rest" "bad_sentence_in ps s" ..
      then show ?thesis by (intro bexI [of _ s]) simp_all
    qed
  qed
qed

lemma flat_error_carries:
  assumes "normalize_sentences items ds dl = Inl (ValueError ps)"
  shows "\<exists>i<length items.
      flat_entry (Suc i) ds dl (items ! i) = Inl (ValueError ps)
      \<and> (\<forall>j<i. \<exists>p. flat_entry (Suc j) ds dl (items ! j) = Inr p)
      \<and> Idx (Suc i) \<in> set ps
      \<and> sublist (str_nat (Suc i)) (message repr ps)
      \<and> ((\<forall>d. items ! i \<noteq> JDict d) \<or> (\<exists>d. items ! i = JDict d \<and> map_of d ''original'' = None)
           \<longrightarrow> ReprOf (items ! i) \<in> set ps \<and> sublist (repr (items ! i)) (message repr ps))"
proof -
  from assms have "flat_loop 1 ds dl items [] = Inl (ValueError ps)"
    by (auto simp: normalize_sentences_def split: sum.splits)
  from flat_loop_Inl [OF this] obtain i where i: "i < length items"
    "flat_entry (Suc i) ds dl (items ! i) = Inl (ValueError ps)"
    "\<forall>j<i. \<exists>p. flat_entry (Suc j) ds dl (items ! j) = Inr p" by auto
  have idx: "Idx (Suc i) \<in> set ps" using i(2) by (rule flat_entry_Inl_index)
  have sub: "sublist (str_nat (Suc i)) (message repr ps)"
    using sublist_message [OF idx, of repr] by (simp only: render_piece.simps)
  have val: "ReprOf (items ! i) \<in> set ps \<and> sublist (repr (items ! i)) (message repr ps)"
    if "(\<forall>d. items ! i \<noteq> JDict d) \<or> (\<exists>d. items ! i = JDict d \<and> map_of d ''original'' = None)"
  proof -
    from that have "ReprOf (items ! i) \<in> set ps"
    proof
      assume "\<forall>d. items ! i \<noteq> JDict d"
      then have "flat_entry (Suc i) ds dl (items ! i)
          = Inl (ValueError [Lit ''Entry '', Idx (Suc i), Lit '' is not an object: '',
                             ReprOf (items ! i)])"
        by (rule flat_entry_not_dict)
      with i(2) have "ps = [Lit ''Entry '', Idx (Suc i), Lit '' is not an object: '',
                             ReprOf (items ! i)]" by simp
      then show ?thesis by simp
    next
      assume "\<exists>d. items ! i = JDict d \<and> map_of d ''original'' = None"
      then obtain d where d: "items ! i = JDict d" "map_of d ''original'' = None" by auto
      from i(2) have "ValueError ps = ValueError [Lit ''Entry '', Idx (Suc i),
          Lit '' is missing 'original': '', ReprOf (JDict d)]"
        unfolding d(1) flat_entry_missing [OF d(2)] by simp
      then show ?thesis by (simp add: d(1))
    qed
    with sublist_message [of "ReprOf (items ! i)" ps repr] show ?thesis
      by (simp only: render_piece.simps simp_thms)
  qed
  show ?thesis
  proof (intro exI [of _ i] conjI impI)
    show "i < length items" by (rule i(1))
    show "flat_entry (Suc i) ds dl (items ! i) = Inl (ValueError ps)" by (rule i(2))
    show "\<forall>j<i. \<exists>p. flat_entry (Suc j) ds dl (items ! j) = Inr p" by (rule i(3))
    show "Idx (Suc i) \<in> set ps" by (rule idx)
    show "sublist (str_nat (Suc i)) (message repr ps)" by (rule sub)
    show "ReprOf (items ! i) \<in> set ps"
      if "(\<forall>d. items ! i \<noteq> JDict d) \<or> (\<exists>d. items ! i = JDict d \<and> map_of d ''original'' = None)"
      using val [OF that] by (rule conjunct1)
    show "sublist (repr (items ! i)) (message repr ps)"
      if "(\<forall>d. items ! i \<noteq> JDict d) \<or> (\<exists>d. items ! i = JDict d \<and> map_of d ''original'' = None)"
      using val [OF that] by (rule conjunct2)
  qed
qed

lemma sectioned_error_carries:
  assumes "list_all is_section_shape secs"
    and "normalize_data (JList secs) ds dl = Inl (ValueError ps)"
  shows "\<exists>sec\<in>set secs. \<exists>d its v. sec = JDict d
      \<and> iterate (get_or d ''sentences'' (JList [])) = Inr its
      \<and> v \<in> set its \<and> (\<forall>d'. v \<noteq> JDict d')
      \<and> ps = [Lit ''Sentence must be an object: '', ReprOf v]
      \<and> message repr ps = ''Sentence must be an object: '' @ repr v"
proof -
  from assms have "sections_loop ds secs [] = Inl (ValueError ps)" by simp
  from sections_loop_Inl [OF this assms(1)] obtain sec where
    sec: "sec \<in> set secs" "bad_sentence_in ps sec" ..
  from sec(2) obtain d its v where
    a: "sec = JDict d" "iterate (get_or d ''sentences'' (JList [])) = Inr its"
      "v \<in> set its" "\<forall>d'. v \<noteq> JDict d'" "ps = [Lit ''Sentence must be an object: '', ReprOf v]"
    unfolding bad_sentence_in_def by (elim exE conjE)
  from a(5) have m: "message repr ps = ''Sentence must be an object: '' @ repr v"
    by (simp add: message_def)
  show ?thesis
    using sec(1) a m
    by (intro bexI [of _ sec] exI [of _ d] exI [of _ its] exI [of _ v] conjI)
qed

lemma third_entry_missing_original:
  assumes "\<not> list_all is_section_shape items" and "2 < length items"
    and "\<exists>p. flat_entry 1 ds dl (items ! 0) = Inr p"
    and "\<exists>p. flat_entry 2 ds dl (items ! 1) = Inr p"
    and "\<exists>d. items ! 2 = JDict d \<and> map_of d ''original'' = None"
  shows "\<exists>ps. normalize_data (JList items) ds dl = Inl (ValueError ps)
      \<and> Idx 3 \<in> set ps \<and> ReprOf (items ! 2) \<in> set ps \<and> sublist ''3'' (message repr ps)"
proof -
  from assms(5) obtain d where d: "items ! 2 = JDict d" "map_of d ''original'' = None" by auto
  define ps where "ps = [Lit ''Entry '', Idx 3, Lit '' is missing 'original': '', ReprOf (JDict d)]"
  have "flat_entry 3 ds dl (items ! 2) = Inl (ValueError ps)"
    unfolding d(1) ps_def by (rule flat_entry_missing [OF d(2)])
  moreover have "1 + 2 = (3::nat)" by simp
  ultimately have e: "flat_entry (1 + 2) ds dl (items ! 2) = Inl (ValueError ps)"
    by (simp only:)
  have ok: "\<forall>j<2. \<exists>p. flat_entry (1 + j) ds dl (items ! j) = Inr p"
  proof (intro allI impI)
    fix j :: nat assume "j < 2"
    then have "j = 0 \<or> j = 1" by auto
    then show "\<exists>p. flat_entry (1 + j) ds dl (items ! j) = Inr p"
      using assms(3) assms(4) by (auto simp: numeral_2_eq_2)
  qed
  have "flat_loop 1 ds dl items [] = Inl (ValueError ps)"
    using assms(2) e ok by (rule flat_loop_fails)
  with assms(1) have n: "normalize_data (JList items) ds dl = Inl (ValueError ps)"
    by (simp add: normalize_sentences_def)
  have i: "Idx 3 \<in> set ps" by (simp add: ps_def)
  have "sublist (str_nat 3) (message repr ps)"
    using sublist_message [OF i, of repr] by (simp only: render_piece.simps)
  then have s: "sublist ''3'' (message repr ps)" by (simp only: str_nat_3)
  have "ReprOf (items ! 2) \<in> set ps" by (simp add: ps_def d(1))
  with n i s show ?thesis by (intro exI [of _ ps]) simp
qed

text \<open>
  C4, as amended. When the flat-list normalization raises a \<^verbatim>\<open>ValueError\<close>, it is the error
  of the first entry that fails, and its message carries the 1-based index of that entry
  (the index is a field of the f-string, and its decimal digits are in the text). The
  message carries the offending value as well, as the \<^verbatim>\<open>repr\<close> of the entry, when the
  entry is not a mapping or lacks \<^verbatim>\<open>original\<close>. When \<^verbatim>\<open>translations\<close> or \<^verbatim>\<open>translation\<close> has
  a bad type, the message is one of two fixed texts around the index, with no field for
  the value. A sentence that is not a mapping inside a section of the sectioned shape
  raises an error whose message is a fixed text followed by the \<^verbatim>\<open>repr\<close> of that sentence,
  with no index. In particular a flat list whose first two entries are accepted and whose
  entry at index 3 lacks \<^verbatim>\<open>original\<close> raises an error whose message contains \<^verbatim>\<open>3\<close>.
\<close>

theorem entry_errors_carry:
  "(normalize_sentences items default_section default_lang = Inl (ValueError ps) \<longrightarrow>
      (\<exists>i<length items.
         flat_entry (Suc i) default_section default_lang (items ! i) = Inl (ValueError ps)
         \<and> (\<forall>j<i. \<exists>p. flat_entry (Suc j) default_section default_lang (items ! j) = Inr p)
         \<and> Idx (Suc i) \<in> set ps
         \<and> sublist (str_nat (Suc i)) (message repr ps)
         \<and> ((\<forall>d. items ! i \<noteq> JDict d)
              \<or> (\<exists>d. items ! i = JDict d \<and> map_of d ''original'' = None)
            \<longrightarrow> ReprOf (items ! i) \<in> set ps
                \<and> sublist (repr (items ! i)) (message repr ps))))
   \<and> (flat_entry index default_section default_lang (JDict d) = Inl (ValueError ps')
        \<and> map_of d ''original'' \<noteq> None \<longrightarrow>
      ps' = [Lit '''translations' on entry '', Idx index,
             Lit '' must be an object if provided.'']
      \<or> ps' = [Lit '''translation' on entry '', Idx index,
               Lit '' must be a string or object.''])
   \<and> (list_all is_section_shape secs
        \<and> normalize_data (JList secs) default_section default_lang = Inl (ValueError ps'') \<longrightarrow>
      (\<exists>sec\<in>set secs. \<exists>d its v. sec = JDict d
         \<and> iterate (get_or d ''sentences'' (JList [])) = Inr its
         \<and> v \<in> set its \<and> (\<forall>d'. v \<noteq> JDict d')
         \<and> ps'' = [Lit ''Sentence must be an object: '', ReprOf v]
         \<and> message repr ps'' = ''Sentence must be an object: '' @ repr v))
   \<and> (\<not> list_all is_section_shape items' \<and> 2 < length items'
        \<and> (\<exists>p. flat_entry 1 default_section default_lang (items' ! 0) = Inr p)
        \<and> (\<exists>p. flat_entry 2 default_section default_lang (items' ! 1) = Inr p)
        \<and> (\<exists>d. items' ! 2 = JDict d \<and> map_of d ''original'' = None) \<longrightarrow>
      (\<exists>ps. normalize_data (JList items') default_section default_lang = Inl (ValueError ps)
         \<and> Idx 3 \<in> set ps \<and> ReprOf (items' ! 2) \<in> set ps
         \<and> sublist ''3'' (message repr ps)))"
proof (intro conjI impI)
  assume "normalize_sentences items default_section default_lang = Inl (ValueError ps)"
  then show "\<exists>i<length items.
         flat_entry (Suc i) default_section default_lang (items ! i) = Inl (ValueError ps)
         \<and> (\<forall>j<i. \<exists>p. flat_entry (Suc j) default_section default_lang (items ! j) = Inr p)
         \<and> Idx (Suc i) \<in> set ps
         \<and> sublist (str_nat (Suc i)) (message repr ps)
         \<and> ((\<forall>d. items ! i \<noteq> JDict d)
              \<or> (\<exists>d. items ! i = JDict d \<and> map_of d ''original'' = None)
            \<longrightarrow> ReprOf (items ! i) \<in> set ps
                \<and> sublist (repr (items ! i)) (message repr ps))"
    by (rule flat_error_carries)
next
  assume a: "flat_entry index default_section default_lang (JDict d) = Inl (ValueError ps')
        \<and> map_of d ''original'' \<noteq> None"
  show "ps' = [Lit '''translations' on entry '', Idx index,
             Lit '' must be an object if provided.'']
      \<or> ps' = [Lit '''translation' on entry '', Idx index,
               Lit '' must be a string or object.'']"
    by (rule flat_entry_bad_field [OF a [THEN conjunct1] a [THEN conjunct2]])
next
  assume a: "list_all is_section_shape secs
        \<and> normalize_data (JList secs) default_section default_lang = Inl (ValueError ps'')"
  show "\<exists>sec\<in>set secs. \<exists>d its v. sec = JDict d
         \<and> iterate (get_or d ''sentences'' (JList [])) = Inr its
         \<and> v \<in> set its \<and> (\<forall>d'. v \<noteq> JDict d')
         \<and> ps'' = [Lit ''Sentence must be an object: '', ReprOf v]
         \<and> message repr ps'' = ''Sentence must be an object: '' @ repr v"
    by (rule sectioned_error_carries [OF a [THEN conjunct1] a [THEN conjunct2]])
next
  assume "\<not> list_all is_section_shape items' \<and> 2 < length items'
        \<and> (\<exists>p. flat_entry 1 default_section default_lang (items' ! 0) = Inr p)
        \<and> (\<exists>p. flat_entry 2 default_section default_lang (items' ! 1) = Inr p)
        \<and> (\<exists>d. items' ! 2 = JDict d \<and> map_of d ''original'' = None)"
  then show "\<exists>ps. normalize_data (JList items') default_section default_lang = Inl (ValueError ps)
         \<and> Idx 3 \<in> set ps \<and> ReprOf (items' ! 2) \<in> set ps
         \<and> sublist ''3'' (message repr ps)"
    by (elim conjE) (rule third_entry_missing_original, assumption+)
qed

text \<open>
  The claim as written has every entry-validation error carry both the index and the
  offending value. The error for a bad \<^verbatim>\<open>translations\<close> has no field for the value (the
  values \<^verbatim>\<open>5\<close> and \<^verbatim>\<open>"zzz"\<close> raise the same error), and the error for a sentence that is not
  a mapping has no index (it is the same whether the sentence is the first or the second
  of its section).
\<close>

theorem entry_errors_carry_counterexample:
  "normalize_data (example_bad_translations (JInt 5)) ''Text'' ''en''
     = Inl (ValueError [Lit '''translations' on entry '', Idx 1,
                        Lit '' must be an object if provided.''])
   \<and> normalize_data (example_bad_translations (JStr ''zzz'')) ''Text'' ''en''
     = normalize_data (example_bad_translations (JInt 5)) ''Text'' ''en''
   \<and> ReprOf (JInt 5) \<notin> set [Lit '''translations' on entry '', Idx 1,
                              Lit '' must be an object if provided.'']
   \<and> normalize_data (example_bad_sentence []) ''Text'' ''en''
     = Inl (ValueError [Lit ''Sentence must be an object: '', ReprOf (JInt 7)])
   \<and> normalize_data (example_bad_sentence [JDict []]) ''Text'' ''en''
     = normalize_data (example_bad_sentence []) ''Text'' ''en''
   \<and> Idx 1 \<notin> set [Lit ''Sentence must be an object: '', ReprOf (JInt 7)]
   \<and> Idx 2 \<notin> set [Lit ''Sentence must be an object: '', ReprOf (JInt 7)]"
  by (simp add: example_bad_translations_def example_bad_sentence_def normalize_sentences_def
      entry_translations_def get_or_def)

text \<open>
  The theorem at a flat list of three entries, the third without \<^verbatim>\<open>original\<close>; at an
  entry whose \<^verbatim>\<open>translations\<close> is a number; and at a section whose only sentence is a
  number.
\<close>

theorem entry_errors_carry_witness:
  "(\<exists>ps. normalize_data (JList example_third_bad) ''Text'' ''en'' = Inl (ValueError ps)
      \<and> Idx 3 \<in> set ps \<and> ReprOf (example_third_bad ! 2) \<in> set ps
      \<and> sublist ''3'' (message (\<lambda>v. ''{...}'') ps))
   \<and> (\<exists>ps i. normalize_sentences example_third_bad ''Text'' ''en'' = Inl (ValueError ps)
      \<and> i < length example_third_bad \<and> Idx (Suc i) \<in> set ps
      \<and> sublist (str_nat (Suc i)) (message (\<lambda>v. ''{...}'') ps))
   \<and> (\<exists>ps. flat_entry 1 ''Text'' ''en''
              (JDict [(''original'', JStr ''one''), (''translations'', JInt 5)])
            = Inl (ValueError ps)
      \<and> (ps = [Lit '''translations' on entry '', Idx 1, Lit '' must be an object if provided.'']
         \<or> ps = [Lit '''translation' on entry '', Idx 1, Lit '' must be a string or object.'']))
   \<and> (\<exists>ps v. normalize_data (example_bad_sentence []) ''Text'' ''en'' = Inl (ValueError ps)
      \<and> message (\<lambda>v. ''{...}'') ps = ''Sentence must be an object: '' @ ''{...}''
      \<and> ps = [Lit ''Sentence must be an object: '', ReprOf v])"
proof -
  let ?repr = "\<lambda>v::json. ''{...}''"
  have "\<not> list_all is_section_shape example_third_bad \<and> 2 < length example_third_bad
        \<and> (\<exists>p. flat_entry 1 ''Text'' ''en'' (example_third_bad ! 0) = Inr p)
        \<and> (\<exists>p. flat_entry 2 ''Text'' ''en'' (example_third_bad ! 1) = Inr p)
        \<and> (\<exists>d. example_third_bad ! 2 = JDict d \<and> map_of d ''original'' = None)"
    by (simp add: example_third_bad_def entry_translations_def section_title_of_def get_or_def
        dict_setdefault_def)
  with entry_errors_carry [where items' = example_third_bad and default_section = "''Text''"
      and default_lang = "''en''" and repr = ?repr]
  have one: "\<exists>ps. normalize_data (JList example_third_bad) ''Text'' ''en'' = Inl (ValueError ps)
      \<and> Idx 3 \<in> set ps \<and> ReprOf (example_third_bad ! 2) \<in> set ps
      \<and> sublist ''3'' (message ?repr ps)"
    by simp
  then obtain ps3 where ps3:
    "normalize_data (JList example_third_bad) ''Text'' ''en'' = Inl (ValueError ps3)" by blast
  have "\<not> list_all is_section_shape example_third_bad"
    by (simp add: example_third_bad_def)
  with ps3 have ns: "normalize_sentences example_third_bad ''Text'' ''en'' = Inl (ValueError ps3)"
    by simp
  from entry_errors_carry [where items = example_third_bad and default_section = "''Text''"
      and default_lang = "''en''" and repr = ?repr and ps = ps3, THEN conjunct1, rule_format,
      OF ns]
  obtain i where "i < length example_third_bad" "Idx (Suc i) \<in> set ps3"
    "sublist (str_nat (Suc i)) (message ?repr ps3)" by blast
  with ns have two: "\<exists>ps i. normalize_sentences example_third_bad ''Text'' ''en''
        = Inl (ValueError ps)
      \<and> i < length example_third_bad \<and> Idx (Suc i) \<in> set ps
      \<and> sublist (str_nat (Suc i)) (message ?repr ps)"
    by (intro exI [of _ ps3] exI [of _ i] conjI)
  define bad where "bad = [(''original'', JStr ''one''), (''translations'', JInt 5)]"
  define psb where
    "psb = [Lit '''translations' on entry '', Idx 1, Lit '' must be an object if provided.'']"
  have fe: "flat_entry 1 ''Text'' ''en'' (JDict bad) = Inl (ValueError psb)"
    by (simp add: bad_def psb_def entry_translations_def)
  have orig: "map_of bad ''original'' \<noteq> None" by (simp add: bad_def)
  from entry_errors_carry [where index = 1 and d = bad and default_section = "''Text''"
      and default_lang = "''en''" and ps' = psb, THEN conjunct2, THEN conjunct1, rule_format,
      OF conjI, OF fe orig]
  have "psb = [Lit '''translations' on entry '', Idx 1, Lit '' must be an object if provided.'']
      \<or> psb = [Lit '''translation' on entry '', Idx 1, Lit '' must be a string or object.'']" .
  with fe have three: "\<exists>ps. flat_entry 1 ''Text'' ''en''
              (JDict [(''original'', JStr ''one''), (''translations'', JInt 5)])
            = Inl (ValueError ps)
      \<and> (ps = [Lit '''translations' on entry '', Idx 1, Lit '' must be an object if provided.'']
         \<or> ps = [Lit '''translation' on entry '', Idx 1, Lit '' must be a string or object.''])"
    unfolding bad_def by (intro exI [of _ psb] conjI)
  define pss where "pss = [Lit ''Sentence must be an object: '', ReprOf (JInt 7)]"
  define secs where
    "secs = [JDict [(''sectionTitle'', JStr ''S''), (''sentences'', JList ([] @ [JInt 7]))]]"
  have shape: "list_all is_section_shape secs" by (simp add: secs_def)
  have nd: "normalize_data (JList secs) ''Text'' ''en'' = Inl (ValueError pss)"
    by (simp add: secs_def pss_def get_or_def)
  from entry_errors_carry [where secs = secs and default_section = "''Text''"
      and default_lang = "''en''" and ps'' = pss and repr = ?repr, THEN conjunct2, THEN conjunct2,
      THEN conjunct1, rule_format, OF conjI, OF shape nd]
  obtain v where "pss = [Lit ''Sentence must be an object: '', ReprOf v]"
    "message ?repr pss = ''Sentence must be an object: '' @ ''{...}''" by blast
  with nd have four: "\<exists>ps v. normalize_data (example_bad_sentence []) ''Text'' ''en''
        = Inl (ValueError ps)
      \<and> message ?repr ps = ''Sentence must be an object: '' @ ''{...}''
      \<and> ps = [Lit ''Sentence must be an object: '', ReprOf v]"
    unfolding example_bad_sentence_def secs_def by (intro exI [of _ pss] exI [of _ v] conjI)
  from one two three four show ?thesis by (intro conjI)
qed

section \<open>The \<^verbatim>\<open>translations\<close> of the output\<close>

lemma sentences_of_section_dict: "sentences_of (section_dict (t, ss)) = ss"
  by (simp add: section_dict_def)

lemma flat_entry_translations:
  assumes "flat_entry index ds dl item = Inr p"
  shows "\<exists>tr. field ''translations'' (snd p) = Some (JDict tr)"
  using flat_entry_Inr [of index ds dl item "fst p" "snd p"] assms by auto

lemma flat_translations_mapping:
  assumes "normalize_sentences items ds dl = Inr out"
  shows "\<forall>sec\<in>set out. \<forall>s\<in>set (sentences_of sec).
           \<exists>tr. field ''translations'' s = Some (JDict tr)"
proof (intro ballI)
  fix sec s assume sec: "sec \<in> set out" and s: "s \<in> set (sentences_of sec)"
  from normalize_sentences_grouped [OF assms] obtain ps where ps: "length ps = length items"
    "\<forall>i<length items. flat_entry (Suc i) ds dl (items ! i) = Inr (ps ! i)"
    "out = map section_dict (grouped key_of ps)" by auto
  from sec ps(3) obtain t where "sec = section_dict (t, members key_of t ps)"
    by (auto simp: grouped_def)
  with s have "s \<in> set (members key_of t ps)" by (simp add: sentences_of_section_dict)
  with set_members [of key_of t ps] obtain p where p: "p \<in> set ps" "s = snd p" by auto
  from p(1) obtain i where "i < length ps" "p = ps ! i" by (auto simp: in_set_conv_nth)
  with ps(1) ps(2) have "flat_entry (Suc i) ds dl (items ! i) = Inr p" by simp
  from flat_entry_translations [OF this] p(2)
  show "\<exists>tr. field ''translations'' s = Some (JDict tr)" by simp
qed

lemma flat_entry_no_translations:
  assumes "flat_entry index ds dl (JDict d) = Inr (title, s)"
    and "map_of d ''translations'' = None \<or> map_of d ''translations'' = Some JNull"
    and "map_of d ''translation'' = None \<or> map_of d ''translation'' = Some JNull"
  shows "field ''translations'' s = Some (JDict [])"
proof -
  from assms(2) assms(3) have "entry_translations index dl d = Inr []"
    by (auto simp: entry_translations_def)
  with flat_entry_Inr [OF assms(1)] show ?thesis by auto
qed

lemma sectioned_sentence_translations:
  "field ''translations'' (sectioned_sentence sd)
     = Some (case map_of sd ''translations'' of None \<Rightarrow> JDict [] | Some v \<Rightarrow> v)"
  by (simp add: sectioned_sentence_def get_or_def)

lemma list_all2_map_right: "(\<And>x. P x (f x)) \<Longrightarrow> list_all2 P xs (map f xs)"
  by (induction xs) simp_all

lemma sectioned_rel_translations:
  assumes "sectioned_rel ds sec res"
  shows "\<exists>d sds. sec = JDict d
      \<and> iterate (get_or d ''sentences'' (JList [])) = Inr (map JDict sds)
      \<and> list_all2 (\<lambda>sd s.
            (map_of sd ''translations'' = None \<longrightarrow> field ''translations'' s = Some (JDict []))
          \<and> (\<forall>tr. map_of sd ''translations'' = Some (JDict tr) \<longrightarrow>
                field ''translations'' s = Some (JDict tr)))
          sds (sentences_of res)"
proof -
  from assms obtain d sds where a: "sec = JDict d"
    "iterate (get_or d ''sentences'' (JList [])) = Inr (map JDict sds)"
    "res = section_dict (get_or d ''sectionTitle'' (JStr ds), map sectioned_sentence sds)"
    unfolding sectioned_rel_def by (elim exE conjE)
  have "list_all2 (\<lambda>sd s.
            (map_of sd ''translations'' = None \<longrightarrow> field ''translations'' s = Some (JDict []))
          \<and> (\<forall>tr. map_of sd ''translations'' = Some (JDict tr) \<longrightarrow>
                field ''translations'' s = Some (JDict tr)))
          sds (map sectioned_sentence sds)"
    by (rule list_all2_map_right) (simp add: sectioned_sentence_translations)
  then show ?thesis
    unfolding a(3) sentences_of_section_dict using a(1) a(2)
    by (intro exI [of _ d] exI [of _ sds] conjI)
qed

lemma sectioned_translations:
  assumes "list_all is_section_shape secs"
    and "normalize_data (JList secs) ds dl = Inr out"
  shows "list_all2 (\<lambda>sec res. \<exists>d sds. sec = JDict d
      \<and> iterate (get_or d ''sentences'' (JList [])) = Inr (map JDict sds)
      \<and> list_all2 (\<lambda>sd s.
            (map_of sd ''translations'' = None \<longrightarrow> field ''translations'' s = Some (JDict []))
          \<and> (\<forall>tr. map_of sd ''translations'' = Some (JDict tr) \<longrightarrow>
                field ''translations'' s = Some (JDict tr)))
          sds (sentences_of res)) secs out"
proof -
  from assms have "sections_loop ds secs [] = Inr out" by simp
  from sections_loop_Inr [OF this] have "list_all2 (sectioned_rel ds) secs out" by simp
  then show ?thesis by (rule list_all2_mono) (rule sectioned_rel_translations)
qed

text \<open>
  C1, as amended. For every flat list that is accepted, every Sentence of the Document
  has a \<^verbatim>\<open>translations\<close> field that is a mapping, never null; it is the empty mapping when
  the entry's \<^verbatim>\<open>translations\<close> and \<^verbatim>\<open>translation\<close> are both absent or null. For an input of
  the sectioned shape, the output sentences follow the input sentences one by one, a
  sentence without the \<^verbatim>\<open>translations\<close> key gets the empty mapping, and a sentence whose
  \<^verbatim>\<open>translations\<close> is a mapping keeps that mapping.
\<close>

theorem translations_is_mapping:
  "(\<not> list_all is_section_shape items
      \<and> normalize_data (JList items) default_section default_lang = Inr out \<longrightarrow>
      (\<forall>sec\<in>set out. \<forall>s\<in>set (sentences_of sec).
          \<exists>tr. field ''translations'' s = Some (JDict tr)))
   \<and> (flat_entry index default_section default_lang (JDict d) = Inr (title, s)
      \<and> (map_of d ''translations'' = None \<or> map_of d ''translations'' = Some JNull)
      \<and> (map_of d ''translation'' = None \<or> map_of d ''translation'' = Some JNull) \<longrightarrow>
      field ''translations'' s = Some (JDict []))
   \<and> (list_all is_section_shape secs
      \<and> normalize_data (JList secs) default_section default_lang = Inr out' \<longrightarrow>
      list_all2 (\<lambda>sec res. \<exists>d sds. sec = JDict d
        \<and> iterate (get_or d ''sentences'' (JList [])) = Inr (map JDict sds)
        \<and> list_all2 (\<lambda>sd s.
              (map_of sd ''translations'' = None \<longrightarrow> field ''translations'' s = Some (JDict []))
            \<and> (\<forall>tr. map_of sd ''translations'' = Some (JDict tr) \<longrightarrow>
                  field ''translations'' s = Some (JDict tr)))
            sds (sentences_of res)) secs out')"
proof (intro conjI impI)
  assume a: "\<not> list_all is_section_shape items
      \<and> normalize_data (JList items) default_section default_lang = Inr out"
  from a [THEN conjunct1] a [THEN conjunct2]
  have "normalize_sentences items default_section default_lang = Inr out" by simp
  then show "\<forall>sec\<in>set out. \<forall>s\<in>set (sentences_of sec).
          \<exists>tr. field ''translations'' s = Some (JDict tr)"
    by (rule flat_translations_mapping)
next
  assume "flat_entry index default_section default_lang (JDict d) = Inr (title, s)
      \<and> (map_of d ''translations'' = None \<or> map_of d ''translations'' = Some JNull)
      \<and> (map_of d ''translation'' = None \<or> map_of d ''translation'' = Some JNull)"
  then show "field ''translations'' s = Some (JDict [])"
    by (elim conjE) (rule flat_entry_no_translations, assumption+)
next
  assume a: "list_all is_section_shape secs
      \<and> normalize_data (JList secs) default_section default_lang = Inr out'"
  show "list_all2 (\<lambda>sec res. \<exists>d sds. sec = JDict d
        \<and> iterate (get_or d ''sentences'' (JList [])) = Inr (map JDict sds)
        \<and> list_all2 (\<lambda>sd s.
              (map_of sd ''translations'' = None \<longrightarrow> field ''translations'' s = Some (JDict []))
            \<and> (\<forall>tr. map_of sd ''translations'' = Some (JDict tr) \<longrightarrow>
                  field ''translations'' s = Some (JDict tr)))
            sds (sentences_of res)) secs out'"
    by (rule sectioned_translations [OF a [THEN conjunct1] a [THEN conjunct2]])
qed

text \<open>
  The claim as written holds for every accepted input and has an absent or null
  \<^verbatim>\<open>translations\<close> yield the empty mapping. In the sectioned shape a null \<^verbatim>\<open>translations\<close>
  is returned as it is (line 84 defaults an absent key only), and a flat entry without
  \<^verbatim>\<open>translations\<close> but with \<^verbatim>\<open>translation: "hi"\<close> yields \<^verbatim>\<open>{"en": "hi"}\<close>.
\<close>

theorem translations_is_mapping_counterexample:
  "normalize_data (JList example_null_translations) ''Text'' ''en''
     = Inr [JDict [(''sectionTitle'', JStr ''S''),
                   (''sentences'', JList [JDict [(''original'', JStr ''one''),
                                                 (''translations'', JNull),
                                                 (''root'', JBool False)]])]]
   \<and> normalize_data (JList example_translation_only) ''Text'' ''en''
     = Inr [JDict [(''sectionTitle'', JStr ''Text''),
                   (''sentences'', JList [JDict [(''original'', JStr ''one''),
                                                 (''translations'', JDict [(''en'', JStr ''hi'')]),
                                                 (''root'', JBool False)]])]]
   \<and> map_of [(''original'', JStr ''one''), (''translation'', JStr ''hi'')] ''translations'' = None
   \<and> JDict [(''en'', JStr ''hi'')] \<noteq> JDict []"
  by (simp add: example_null_translations_def example_translation_only_def
      normalize_sentences_def entry_translations_def dict_setdefault_def section_title_of_def
      get_or_def section_dict_def sectioned_sentence_def)

lemma example_no_section_data:
  "normalize_data (JList example_no_section) ''Text'' ''en'' = Inr example_no_section_out"
  using example_no_section_eval by (simp add: example_no_section_def)

lemma example_absent_translations_eval:
  "normalize_data (JList example_absent_translations) ''Text'' ''en''
     = Inr [JDict [(''sectionTitle'', JStr ''S''),
                   (''sentences'', JList
                      [JDict [(''original'', JStr ''one''), (''translations'', JDict []),
                              (''root'', JBool False)],
                       JDict [(''original'', JStr ''''),
                              (''translations'', JDict [(''en'', JStr ''two'')]),
                              (''root'', JBool False)]])]]"
  by (simp add: example_absent_translations_def get_or_def section_dict_def
      sectioned_sentence_def)

text \<open>
  The theorem at a flat list of two entries without translations, at its first entry, and
  at a section with a sentence without \<^verbatim>\<open>translations\<close> and one with a mapping.
\<close>

theorem translations_is_mapping_witness:
  "normalize_data (JList example_no_section) ''Text'' ''en'' = Inr example_no_section_out
   \<and> list_all (\<lambda>sec. list_all (\<lambda>s. \<exists>tr. field ''translations'' s = Some (JDict tr))
                          (sentences_of sec)) example_no_section_out
   \<and> field ''translations''
        (JDict [(''original'', JStr ''one''), (''translations'', JDict []),
                (''root'', JBool False)]) = Some (JDict [])
   \<and> (\<exists>out. normalize_data (JList example_absent_translations) ''Text'' ''en'' = Inr out
        \<and> list_all2 (\<lambda>sec res. \<exists>d sds. sec = JDict d
            \<and> iterate (get_or d ''sentences'' (JList [])) = Inr (map JDict sds)
            \<and> list_all2 (\<lambda>sd s.
                  (map_of sd ''translations'' = None \<longrightarrow>
                     field ''translations'' s = Some (JDict []))
                \<and> (\<forall>tr. map_of sd ''translations'' = Some (JDict tr) \<longrightarrow>
                      field ''translations'' s = Some (JDict tr)))
                sds (sentences_of res)) example_absent_translations out)"
proof -
  have flat: "\<not> list_all is_section_shape example_no_section"
    by (simp add: example_no_section_def)
  with translations_is_mapping [where items = example_no_section and out = example_no_section_out
      and default_section = "''Text''" and default_lang = "''en''"] example_no_section_data
  have "\<forall>sec\<in>set example_no_section_out. \<forall>s\<in>set (sentences_of sec).
       \<exists>tr. field ''translations'' s = Some (JDict tr)" by simp
  then have one: "list_all (\<lambda>sec. list_all (\<lambda>s. \<exists>tr. field ''translations'' s = Some (JDict tr))
                          (sentences_of sec)) example_no_section_out"
    by (simp only: list_all_iff)
  have "flat_entry 1 ''Text'' ''en'' (JDict [(''original'', JStr ''one'')])
      = Inr (JStr ''Text'', JDict [(''original'', JStr ''one''), (''translations'', JDict []),
                                   (''root'', JBool False)])"
    by (simp add: entry_translations_def section_title_of_def get_or_def)
  with translations_is_mapping [where index = 1 and d = "[(''original'', JStr ''one'')]"
      and default_section = "''Text''" and default_lang = "''en''" and title = "JStr ''Text''"
      and s = "JDict [(''original'', JStr ''one''), (''translations'', JDict []),
                      (''root'', JBool False)]"]
  have two: "field ''translations''
        (JDict [(''original'', JStr ''one''), (''translations'', JDict []),
                (''root'', JBool False)]) = Some (JDict [])"
    by simp
  have shape: "list_all is_section_shape example_absent_translations"
    by (simp add: example_absent_translations_def)
  from translations_is_mapping [where secs = example_absent_translations
      and default_section = "''Text''" and default_lang = "''en''", THEN conjunct2,
      THEN conjunct2, rule_format, OF conjI, OF shape example_absent_translations_eval]
    example_absent_translations_eval
  have three: "\<exists>out. normalize_data (JList example_absent_translations) ''Text'' ''en'' = Inr out
        \<and> list_all2 (\<lambda>sec res. \<exists>d sds. sec = JDict d
            \<and> iterate (get_or d ''sentences'' (JList [])) = Inr (map JDict sds)
            \<and> list_all2 (\<lambda>sd s.
                  (map_of sd ''translations'' = None \<longrightarrow>
                     field ''translations'' s = Some (JDict []))
                \<and> (\<forall>tr. map_of sd ''translations'' = Some (JDict tr) \<longrightarrow>
                      field ''translations'' s = Some (JDict tr)))
                sds (sentences_of res)) example_absent_translations out"
    by (intro exI conjI)
  from example_no_section_data one two three show ?thesis by (intro conjI)
qed

end
